theory Spec2Isabelle
  imports Main "HOL-Library.Sublist" "HOL-Library.AList"
begin

section \<open>Python strings\<close>

text \<open>
  The strings handled by \<^verbatim>\<open>labeller.py\<close> are label tags, provider status texts and
  episode types. \<^verbatim>\<open>str.lower\<close>, \<^verbatim>\<open>str.title\<close> and \<^verbatim>\<open>str.startswith\<close> are modelled on
  ASCII letters; every other character is left as it is.
\<close>

definition ascii_uppercase :: string where
  "ascii_uppercase = ''ABCDEFGHIJKLMNOPQRSTUVWXYZ''"

definition ascii_lowercase :: string where
  "ascii_lowercase = ''abcdefghijklmnopqrstuvwxyz''"

definition lower_char :: "char \<Rightarrow> char" where
  "lower_char c =
     (case map_of (zip ascii_uppercase ascii_lowercase) c of Some d \<Rightarrow> d | None \<Rightarrow> c)"

definition upper_char :: "char \<Rightarrow> char" where
  "upper_char c =
     (case map_of (zip ascii_lowercase ascii_uppercase) c of Some d \<Rightarrow> d | None \<Rightarrow> c)"

definition lower :: "string \<Rightarrow> string" where
  "lower s = map lower_char s"

text \<open>
  \<^verbatim>\<open>str.title()\<close>: a cased character is upper-cased when the character before it is
  not cased, and lower-cased otherwise.
\<close>

fun title_from :: "bool \<Rightarrow> string \<Rightarrow> string" where
  "title_from previous_is_cased [] = []"
| "title_from previous_is_cased (c # cs) =
     (if c \<in> set ascii_lowercase then
        (if previous_is_cased then c else upper_char c) # title_from True cs
      else if c \<in> set ascii_uppercase then
        (if previous_is_cased then lower_char c else c) # title_from True cs
      else c # title_from False cs)"

definition title :: "string \<Rightarrow> string" where
  "title s = title_from False s"

definition startswith :: "string \<Rightarrow> string \<Rightarrow> bool" where
  "startswith s p = prefix p s"

section \<open>Dates\<close>

text \<open>
  \<^verbatim>\<open>datetime.date\<close> with the proleptic Gregorian ordinal of CPython's \<^verbatim>\<open>_ymd2ord\<close>;
  the difference of two dates in days is the difference of their ordinals, and the
  order of dates is the lexicographic order of (year, month, day).
\<close>

record py_date =
  year :: int
  month :: int
  day :: int

definition is_leap :: "int \<Rightarrow> bool" where
  "is_leap y = (y mod 4 = 0 \<and> (y mod 100 \<noteq> 0 \<or> y mod 400 = 0))"

definition days_before_year :: "int \<Rightarrow> int" where
  "days_before_year y = (y - 1) * 365 + (y - 1) div 4 - (y - 1) div 100 + (y - 1) div 400"

definition DAYS_BEFORE_MONTH :: "int list" where
  "DAYS_BEFORE_MONTH = [0, 31, 59, 90, 120, 151, 181, 212, 243, 273, 304, 334]"

definition days_before_month :: "int \<Rightarrow> int \<Rightarrow> int" where
  "days_before_month y m =
     DAYS_BEFORE_MONTH ! nat (m - 1) + (if m > 2 \<and> is_leap y then 1 else 0)"

definition toordinal :: "py_date \<Rightarrow> int" where
  "toordinal d = days_before_year (year d) + days_before_month (year d) (month d) + day d"

definition days_between :: "py_date \<Rightarrow> py_date \<Rightarrow> int" where
  \<comment> \<open>\<^verbatim>\<open>(a - b).days\<close>\<close>
  "days_between a b = toordinal a - toordinal b"

definition date_le :: "py_date \<Rightarrow> py_date \<Rightarrow> bool" where
  "date_le a b =
     (year a < year b \<or> (year a = year b \<and>
        (month a < month b \<or> (month a = month b \<and> day a \<le> day b))))"

definition day_names :: "string list" where
  "day_names = [''Monday'', ''Tuesday'', ''Wednesday'', ''Thursday'', ''Friday'',
                ''Saturday'', ''Sunday'']"

definition weekday :: "py_date \<Rightarrow> int" where
  "weekday d = (toordinal d + 6) mod 7"

definition strftime_A :: "py_date \<Rightarrow> string" where
  \<comment> \<open>\<^verbatim>\<open>strftime("%A")\<close>\<close>
  "strftime_A d = day_names ! nat (weekday d)"

definition two_digits :: "int \<Rightarrow> string" where
  "two_digits n = [''0123456789'' ! nat (n div 10), ''0123456789'' ! nat (n mod 10)]"

definition strftime_md :: "py_date \<Rightarrow> string" where
  \<comment> \<open>\<^verbatim>\<open>strftime("%m/%d")\<close>\<close>
  "strftime_md d = two_digits (month d) @ ''/'' @ two_digits (day d)"

definition strftime_dm :: "py_date \<Rightarrow> string" where
  \<comment> \<open>\<^verbatim>\<open>strftime("%d/%m")\<close>\<close>
  "strftime_dm d = two_digits (day d) @ ''/'' @ two_digits (month d)"

text \<open>
  A date field of a provider payload: absent (or the empty string), a string that
  \<^verbatim>\<open>datetime.fromisoformat\<close> rejects with \<^verbatim>\<open>ValueError\<close>, or an ISO date.
\<close>

datatype date_str = NoDate | BadDate | IsoDate py_date

datatype error = ValueError

section \<open>The library store\<close>

text \<open>
  The entities of one show: the show, its seasons (by position in \<^verbatim>\<open>show.seasons()\<close>)
  and the episodes of a season (by episode number). An object holds the tags of the
  library store (\<open>labels\<close>) and the tag list the client read at its last load
  (\<open>loaded\<close>, the value of \<^verbatim>\<open>obj.labels\<close>): \<^verbatim>\<open>reload()\<close> refreshes the second from the
  first, \<^verbatim>\<open>addLabel\<close> and \<^verbatim>\<open>removeLabel\<close> change the first only.
\<close>

datatype entity = Show | Season nat | Episode nat int

record plex_obj =
  labels :: "string set"
  loaded :: "string set"

type_synonym store = "entity \<Rightarrow> plex_obj"

definition reload :: "entity \<Rightarrow> store \<Rightarrow> store" where
  "reload obj st = st(obj := (st obj)\<lparr>loaded := labels (st obj)\<rparr>)"

definition addLabel :: "entity \<Rightarrow> string \<Rightarrow> store \<Rightarrow> store" where
  "addLabel obj l st = st(obj := (st obj)\<lparr>labels := insert l (labels (st obj))\<rparr>)"

definition removeLabel :: "entity \<Rightarrow> string \<Rightarrow> store \<Rightarrow> store" where
  "removeLabel obj l st = st(obj := (st obj)\<lparr>labels := labels (st obj) - {l}\<rparr>)"

text \<open>
  A \<^verbatim>\<open>for\<close> loop that calls \<^verbatim>\<open>removeLabel\<close> (or \<^verbatim>\<open>addLabel\<close>) on every element of a
  Python set: the result does not depend on the order of iteration.
\<close>

definition removeLabels :: "entity \<Rightarrow> string set \<Rightarrow> store \<Rightarrow> store" where
  "removeLabels obj ls st = st(obj := (st obj)\<lparr>labels := labels (st obj) - ls\<rparr>)"

definition addLabels :: "entity \<Rightarrow> string set \<Rightarrow> store \<Rightarrow> store" where
  "addLabels obj ls st = st(obj := (st obj)\<lparr>labels := labels (st obj) \<union> ls\<rparr>)"

section \<open>Configuration\<close>

record config =
  DATE_FORMAT :: string
  DAY_INDICATOR :: bool
  DAYS_TO_CONSIDER :: int
  RETURNING_DAYS :: int

definition source_config :: config where
  "source_config =
     \<lparr>DATE_FORMAT = ''MM/DD'', DAY_INDICATOR = True, DAYS_TO_CONSIDER = 7, RETURNING_DAYS = 28\<rparr>"

definition SPECIAL_LABELS :: "string set" where
  "SPECIAL_LABELS =
     {''Pilot'', ''Season Premiere'', ''Season Finale'', ''Series Finale'', ''Mid-Season Finale''}"

definition STATUS_LABELS :: "string set" where
  "STATUS_LABELS = {''Status: Ended'', ''Status: Canceled'', ''Status: Returning Series''}"

section \<open>Label helpers\<close>

definition set_label :: "entity \<Rightarrow> string \<Rightarrow> store \<Rightarrow> store \<times> bool" where
  "set_label obj label st0 =
     (let st1 = reload obj st0;
          existing = loaded (st1 obj);
          stale = {l \<in> existing \<inter> SPECIAL_LABELS. l \<noteq> label};
          st2 = removeLabels obj stale st1;
          adding = (label \<noteq> [] \<and> label \<notin> existing)
      in (if adding then addLabel obj label st2 else st2, stale \<noteq> {} \<or> adding))"

definition remove_all_special_labels :: "entity \<Rightarrow> store \<Rightarrow> store" where
  "remove_all_special_labels obj st0 =
     (let st1 = reload obj st0
      in removeLabels obj (loaded (st1 obj) \<inter> SPECIAL_LABELS) st1)"

definition set_episode_special_labels :: "entity \<Rightarrow> string set \<Rightarrow> store \<Rightarrow> store \<times> bool" where
  "set_episode_special_labels episode new_labels st0 =
     (let st1 = reload episode st0;
          existing_labels = loaded (st1 episode);
          stale = {l \<in> existing_labels \<inter> SPECIAL_LABELS. l \<notin> new_labels};
          st2 = removeLabels episode stale st1;
          fresh = {l \<in> new_labels. l \<notin> existing_labels};
          st3 = addLabels episode fresh st2
      in (st3, stale \<noteq> {} \<or> fresh \<noteq> {}))"

section \<open>Upcoming and status labels of the show\<close>

record next_episode =
  air_date :: date_str
  season_number :: "int option"
  episode_number :: "int option"

record tmdb_series =
  last_air_date :: "int option"
  status :: string
  next_episode_to_air :: "next_episode option"

definition truthy :: "int option \<Rightarrow> bool" where
  "truthy x = (case x of None \<Rightarrow> False | Some n \<Rightarrow> n \<noteq> 0)"

datatype upcoming = New_Episode string | New_Season string | Returning string | No_Upcoming

definition format_date :: "config \<Rightarrow> py_date \<Rightarrow> int \<Rightarrow> string" where
  "format_date cfg d days_until =
     (if DAY_INDICATOR cfg \<and> days_until \<le> 7 then strftime_A d
      else if DATE_FORMAT cfg = ''MM/DD'' then strftime_md d else strftime_dm d)"

text \<open>
  The branch of \<^verbatim>\<open>set_status_label\<close> that the next-episode payload selects, with the
  formatted date of the label. \<open>latest_index\<close> is \<^verbatim>\<open>latest_season.index\<close>.
\<close>

definition upcoming_event ::
  "config \<Rightarrow> py_date \<Rightarrow> next_episode option \<Rightarrow> int option \<Rightarrow> error + upcoming" where
  "upcoming_event cfg today next_ep latest_index =
     (case next_ep of
        None \<Rightarrow> Inr No_Upcoming
      | Some ne \<Rightarrow>
          if air_date ne \<noteq> NoDate \<and> truthy (season_number ne) \<and> truthy (episode_number ne)
          then
            (case air_date ne of
               NoDate \<Rightarrow> Inr No_Upcoming
             | BadDate \<Rightarrow> Inl ValueError
             | IsoDate d \<Rightarrow>
                 (let days_until = days_between d today;
                      formatted_date = format_date cfg d days_until
                  in if days_until \<le> DAYS_TO_CONSIDER cfg then
                       (if season_number ne = latest_index \<and> episode_number ne \<noteq> Some 1
                        then Inr (New_Episode formatted_date)
                        else Inr (New_Season formatted_date))
                     else if days_until \<le> RETURNING_DAYS cfg then Inr (Returning formatted_date)
                     else Inr No_Upcoming))
          else Inr No_Upcoming)"

definition is_upcoming :: "string \<Rightarrow> bool" where
  "is_upcoming l =
     (startswith l ''New Episode'' \<or> startswith l ''New Season'' \<or> startswith l ''Returning'')"

definition is_returning :: "string \<Rightarrow> bool" where
  "is_returning l = startswith l ''Returning''"

text \<open>
  The block repeated in every branch: reload, remove each loaded label that the
  prefix test selects, add the new label unless it was loaded.
\<close>

definition replace_labels :: "entity \<Rightarrow> (string \<Rightarrow> bool) \<Rightarrow> string \<Rightarrow> store \<Rightarrow> store" where
  "replace_labels obj selected label st0 =
     (let st1 = reload obj st0;
          existing = loaded (st1 obj);
          st2 = removeLabels obj {l \<in> existing. selected l} st1
      in if label \<notin> existing then addLabel obj label st2 else st2)"

fun apply_upcoming :: "upcoming \<Rightarrow> entity \<Rightarrow> store \<Rightarrow> store" where
  "apply_upcoming (New_Episode formatted_date) latest_season st =
     (let label = ''New Episode '' @ formatted_date
      in replace_labels latest_season is_upcoming label (replace_labels Show is_upcoming label st))"
| "apply_upcoming (New_Season formatted_date) latest_season st =
     replace_labels Show is_upcoming (''New Season '' @ formatted_date) st"
| "apply_upcoming (Returning formatted_date) latest_season st =
     replace_labels Show is_returning (''Returning '' @ formatted_date) st"
| "apply_upcoming No_Upcoming latest_season st = st"

definition apply_status :: "string \<Rightarrow> store \<Rightarrow> store" where
  "apply_status tmdb_status st0 =
     (let existing = loaded (st0 Show);
          st1 = removeLabels Show (existing \<inter> STATUS_LABELS) st0
      in if tmdb_status \<noteq> [] then
           (let status_label = ''Status: '' @ title tmdb_status
            in if status_label \<notin> existing then addLabel Show status_label st1 else st1)
         else st1)"

definition set_status_label ::
  "config \<Rightarrow> py_date \<Rightarrow> tmdb_series \<Rightarrow> string \<Rightarrow> entity \<Rightarrow> int option \<Rightarrow> store
     \<Rightarrow> error + store" where
  "set_status_label cfg today tmdb_data tmdb_status latest_season latest_index st =
     (case upcoming_event cfg today (next_episode_to_air tmdb_data) latest_index of
        Inl e \<Rightarrow> Inl e
      | Inr u \<Rightarrow> Inr (apply_status tmdb_status (apply_upcoming u latest_season st)))"

section \<open>The processing pass of one show\<close>

text \<open>
  What the collaborators hand to one iteration of the main loop. Of the library: the
  result of \<^verbatim>\<open>get_tmdb_id\<close>, the \<^verbatim>\<open>index\<close> of every season of \<^verbatim>\<open>show.seasons()\<close>, and
  whether \<^verbatim>\<open>season.episode(n)\<close> finds an episode. Of the provider: the series payload
  (\<open>None\<close> for a response other than 200) and, for a batch of season numbers, the
  seasons the response holds. Time stamps (\<^verbatim>\<open>last_air_date\<close>, the entries of the update
  log, \<^verbatim>\<open>datetime.now()\<close>) are integers on one time line.
\<close>

record tmdb_episode =
  ep_air_date :: date_str
  ep_episode_number :: int
  episode_type :: string

record plex_show =
  tmdb_guid :: "string option"
  season_index :: "int option list"
  has_episode :: "nat \<Rightarrow> int \<Rightarrow> bool"

record provider =
  series_response :: "tmdb_series option"
  seasons_response :: "int list \<Rightarrow> (int \<rightharpoonup> tmdb_episode list) option"

type_synonym update_log = "string \<rightharpoonup> int"

datatype outcome =
  No_Tmdb_Id | Request_Failed | No_Seasons | Not_Processed | Unexpected error | Processed

definition index_or_0 :: "int option \<Rightarrow> int" where
  \<comment> \<open>\<^verbatim>\<open>s.index or 0\<close>\<close>
  "index_or_0 i = (case i of None \<Rightarrow> 0 | Some n \<Rightarrow> n)"

text \<open>Python's \<^verbatim>\<open>max(xs, key=f)\<close> on a non-empty sequence: the first maximal element.\<close>

fun max_by :: "('a \<Rightarrow> int) \<Rightarrow> 'a \<Rightarrow> 'a list \<Rightarrow> 'a" where
  "max_by f best [] = best"
| "max_by f best (x # xs) = max_by f (if f x > f best then x else best) xs"

definition latest_position :: "int option list \<Rightarrow> nat" where
  "latest_position plex_seasons =
     max_by (\<lambda>i. index_or_0 (plex_seasons ! i)) 0 [1..<length plex_seasons]"

definition should_process :: "int option \<Rightarrow> int option \<Rightarrow> bool" where
  "should_process last_updated_dt last_air_dt =
     (let is_rerun = (case (last_updated_dt, last_air_dt) of
                        (Some u, Some a) \<Rightarrow> a > u
                      | _ \<Rightarrow> False)
      in last_updated_dt = None \<or> is_rerun)"

definition chunks :: "'a list \<Rightarrow> nat \<Rightarrow> 'a list list" where
  "chunks lst n = map (\<lambda>i. take n (drop (i * n) lst)) [0..<(length lst + n - 1) div n]"

fun store_parts ::
  "(int \<rightharpoonup> tmdb_episode list) \<Rightarrow> int list \<Rightarrow> (int \<times> tmdb_episode list) list
     \<Rightarrow> (int \<times> tmdb_episode list) list" where
  "store_parts data [] all_tmdb_data = all_tmdb_data"
| "store_parts data (p # parts) all_tmdb_data =
     store_parts data parts
       (case data p of None \<Rightarrow> all_tmdb_data | Some v \<Rightarrow> AList.update p v all_tmdb_data)"

fun fetch_seasons ::
  "(int list \<Rightarrow> (int \<rightharpoonup> tmdb_episode list) option) \<Rightarrow> int list list
     \<Rightarrow> (int \<times> tmdb_episode list) list \<Rightarrow> (int \<times> tmdb_episode list) list" where
  "fetch_seasons get [] all_tmdb_data = all_tmdb_data"
| "fetch_seasons get (batch # batches) all_tmdb_data =
     (case get batch of
        None \<Rightarrow> fetch_seasons get batches all_tmdb_data
      | Some data \<Rightarrow> fetch_seasons get batches (store_parts data batch all_tmdb_data))"

definition final_season_index :: "int list \<Rightarrow> error + int" where
  \<comment> \<open>\<^verbatim>\<open>max(...)\<close> of an empty sequence raises \<^verbatim>\<open>ValueError\<close>\<close>
  "final_season_index tmdb_season_keys =
     (case tmdb_season_keys of [] \<Rightarrow> Inl ValueError | k # ks \<Rightarrow> Inr (fold max ks k))"

fun aired_episodes :: "py_date \<Rightarrow> tmdb_episode list \<Rightarrow> error + tmdb_episode list" where
  "aired_episodes today [] = Inr []"
| "aired_episodes today (ep # eps) =
     (case ep_air_date ep of
        NoDate \<Rightarrow> aired_episodes today eps
      | BadDate \<Rightarrow> Inl ValueError
      | IsoDate d \<Rightarrow>
          (case aired_episodes today eps of
             Inl e \<Rightarrow> Inl e
           | Inr rest \<Rightarrow> Inr (if date_le d today then ep # rest else rest)))"

definition season_candidate_label ::
  "int option \<Rightarrow> int \<Rightarrow> string \<Rightarrow> tmdb_episode \<Rightarrow> string option" where
  "season_candidate_label index final tmdb_status last_ep =
     (let ep_type = lower (episode_type last_ep);
          ep_num = ep_episode_number last_ep
      in if ep_num = 1 then Some (if index = Some 1 then ''Pilot'' else ''Season Premiere'')
         else if ep_type = ''mid_season'' then Some ''Mid-Season Finale''
         else if ep_type = ''finale'' then
           Some (if index = Some final \<and> tmdb_status \<in> set [''ended'', ''canceled'']
                 then ''Series Finale'' else ''Season Finale'')
         else None)"

definition episode_candidate ::
  "int option \<Rightarrow> int \<Rightarrow> string \<Rightarrow> tmdb_episode \<Rightarrow> string option" where
  "episode_candidate index final tmdb_status ep =
     (if index = Some 1 \<and> ep_episode_number ep = 1 then Some ''Pilot''
      else if ep_episode_number ep = 1 then Some ''Season Premiere''
      else if lower (episode_type ep) = ''mid_season'' then Some ''Mid-Season Finale''
      else if lower (episode_type ep) = ''finale'' then
        Some (if index = Some final \<and> tmdb_status \<in> set [''ended'', ''canceled'']
              then ''Series Finale'' else ''Season Finale'')
      else None)"

fun candidate_episodes ::
  "py_date \<Rightarrow> int option \<Rightarrow> int \<Rightarrow> string \<Rightarrow> tmdb_episode list \<Rightarrow> (int \<times> string) list
     \<Rightarrow> (int \<times> string) list" where
  "candidate_episodes today index final tmdb_status [] acc = acc"
| "candidate_episodes today index final tmdb_status (ep # eps) acc =
     candidate_episodes today index final tmdb_status eps
       (case ep_air_date ep of
          NoDate \<Rightarrow> acc
        | BadDate \<Rightarrow> acc
        | IsoDate ep_date \<Rightarrow>
            if \<not> date_le ep_date today then acc
            else (case episode_candidate index final tmdb_status ep of
                    None \<Rightarrow> acc
                  | Some candidate \<Rightarrow> AList.update (ep_episode_number ep) candidate acc))"

fun label_episodes ::
  "nat \<Rightarrow> (nat \<Rightarrow> int \<Rightarrow> bool) \<Rightarrow> (int \<times> string) list \<Rightarrow> store \<times> bool \<Rightarrow> store \<times> bool" where
  "label_episodes pos has [] (st, any_modified) = (st, any_modified)"
| "label_episodes pos has ((ep_number, candidate_label) # rest) (st, any_modified) =
     (if \<not> has pos ep_number then label_episodes pos has rest (st, any_modified)
      else (let (st', updated) =
                  set_episode_special_labels (Episode pos ep_number) {candidate_label} st
            in label_episodes pos has rest (st', any_modified \<or> updated)))"

text \<open>The variables of the main loop that the loop over the seasons reads and writes.\<close>

record locals =
  today_l :: py_date
  plex_seasons_l :: "int option list"
  has_episode_l :: "nat \<Rightarrow> int \<Rightarrow> bool"
  all_tmdb_data_l :: "(int \<times> tmdb_episode list) list"
  final_season_index_l :: int
  tmdb_status_l :: string
  latest_index_l :: "int option"

record progress =
  labelled :: store
  latest_season_label :: "string option"
  any_modified :: bool

definition season_data :: "locals \<Rightarrow> int option \<Rightarrow> tmdb_episode list option" where
  \<comment> \<open>the lookup of \<^verbatim>\<open>f"season/{season.index}"\<close> in \<^verbatim>\<open>all_tmdb_data\<close>\<close>
  "season_data c index =
     (case index of None \<Rightarrow> None | Some n \<Rightarrow> map_of (all_tmdb_data_l c) n)"

definition process_season :: "locals \<Rightarrow> nat \<Rightarrow> progress \<Rightarrow> error + progress" where
  "process_season c pos p =
     (let index = plex_seasons_l c ! pos
      in case season_data c index of
           None \<Rightarrow> Inr p
         | Some tmdb_episodes \<Rightarrow>
             (case aired_episodes (today_l c) tmdb_episodes of
                Inl e \<Rightarrow> Inl e
              | Inr [] \<Rightarrow>
                  Inr (p\<lparr>labelled := remove_all_special_labels (Season pos) (labelled p)\<rparr>)
              | Inr (a # as) \<Rightarrow>
                  (let last_ep = max_by ep_episode_number a as;
                       season_label =
                         season_candidate_label index (final_season_index_l c)
                           (tmdb_status_l c) last_ep;
                       (st1, modified) =
                         (case season_label of
                            Some l \<Rightarrow> set_label (Season pos) l (labelled p)
                          | None \<Rightarrow>
                              (remove_all_special_labels (Season pos) (labelled p), False));
                       any1 = (any_modified p \<or> modified);
                       latest1 = (if index = latest_index_l c then season_label
                                  else latest_season_label p);
                       (st2, any2) =
                         label_episodes pos (has_episode_l c)
                           (candidate_episodes (today_l c) index (final_season_index_l c)
                              (tmdb_status_l c) tmdb_episodes [])
                           (st1, any1)
                   in Inr \<lparr>labelled = st2, latest_season_label = latest1,
                           any_modified = any2\<rparr>)))"

fun process_seasons :: "locals \<Rightarrow> nat list \<Rightarrow> progress \<Rightarrow> progress \<times> error option" where
  "process_seasons c [] p = (p, None)"
| "process_seasons c (pos # rest) p =
     (case process_season c pos p of
        Inl e \<Rightarrow> (p, Some e)
      | Inr p' \<Rightarrow> process_seasons c rest p')"

definition season_numbers :: "int option list \<Rightarrow> int list" where
  \<comment> \<open>\<^verbatim>\<open>[s.index for s in plex_seasons if s.index]\<close>\<close>
  "season_numbers plex_seasons = map index_or_0 (filter truthy plex_seasons)"

definition process_show ::
  "config \<Rightarrow> py_date \<Rightarrow> int \<Rightarrow> plex_show \<Rightarrow> provider \<Rightarrow> store \<times> update_log
     \<Rightarrow> outcome \<times> store \<times> update_log" where
  "process_show cfg today now show prov run =
     (let (st, update_log) = run
      in case tmdb_guid show of
           None \<Rightarrow> (No_Tmdb_Id, st, update_log)
         | Some tmdb_id \<Rightarrow>
      if tmdb_id = [] then (No_Tmdb_Id, st, update_log)
      else case series_response prov of
           None \<Rightarrow> (Request_Failed, st, update_log)
         | Some tmdb_data \<Rightarrow>
      (let tmdb_status = lower (status tmdb_data);
           plex_seasons = season_index show
       in if plex_seasons = [] then (No_Seasons, st, update_log)
          else
      (let latest = latest_position plex_seasons;
           latest_index = plex_seasons ! latest
       in case set_status_label cfg today tmdb_data tmdb_status (Season latest) latest_index st of
            Inl e \<Rightarrow> (Unexpected e, st, update_log)
          | Inr st1 \<Rightarrow>
      if \<not> should_process (update_log tmdb_id) (last_air_date tmdb_data)
      then (Not_Processed, st1, update_log)
      else
      (let all_tmdb_data =
             fetch_seasons (seasons_response prov) (chunks (season_numbers plex_seasons) 20) []
       in case final_season_index (map fst all_tmdb_data) of
            Inl e \<Rightarrow> (Unexpected e, st1, update_log)
          | Inr final \<Rightarrow>
      (let c = \<lparr>today_l = today, plex_seasons_l = plex_seasons,
                has_episode_l = has_episode show, all_tmdb_data_l = all_tmdb_data,
                final_season_index_l = final, tmdb_status_l = tmdb_status,
                latest_index_l = latest_index\<rparr>
       in case process_seasons c [0..<length plex_seasons]
                 \<lparr>labelled = st1, latest_season_label = None, any_modified = False\<rparr> of
            (p, Some e) \<Rightarrow> (Unexpected e, labelled p, update_log)
          | (p, None) \<Rightarrow>
      (let (st3, any3) =
             (case latest_season_label p of
                Some l \<Rightarrow> (let (s, updated) = set_label Show l (labelled p)
                           in (s, any_modified p \<or> updated))
              | None \<Rightarrow> (remove_all_special_labels Show (labelled p), any_modified p))
       in (Processed, st3, if any3 then update_log(tmdb_id \<mapsto> now) else update_log)))))))"

text \<open>The three parts of the result of a pass.\<close>

definition outcome_of :: "outcome \<times> store \<times> update_log \<Rightarrow> outcome" where
  "outcome_of r = fst r"

definition store_of :: "outcome \<times> store \<times> update_log \<Rightarrow> store" where
  "store_of r = fst (snd r)"

definition log_of :: "outcome \<times> store \<times> update_log \<Rightarrow> update_log" where
  "log_of r = snd (snd r)"

text \<open>
  The start of a run: \<^verbatim>\<open>get_filtered_shows\<close> hands out objects that hold the tags the
  store has at that moment.
\<close>

definition load_objects :: "store \<Rightarrow> store" where
  "load_objects st = (\<lambda>e. (st e)\<lparr>loaded := labels (st e)\<rparr>)"

section \<open>The special label of the latest season\<close>

text \<open>
  What the loop over the seasons does with a season of a given index: \<open>None\<close> when the
  season is skipped (its data was not fetched, or none of its episodes has aired),
  otherwise the label, or none, that the last aired episode gives it.
\<close>

definition season_outcome :: "locals \<Rightarrow> int option \<Rightarrow> string option option" where
  "season_outcome c index =
     (case season_data c index of
        None \<Rightarrow> None
      | Some tmdb_episodes \<Rightarrow>
          (case aired_episodes (today_l c) tmdb_episodes of
             Inr (a # as) \<Rightarrow>
               Some (season_candidate_label index (final_season_index_l c) (tmdb_status_l c)
                       (max_by ep_episode_number a as))
           | _ \<Rightarrow> None))"

text \<open>The values of these variables in the main loop.\<close>

definition loop_locals :: "py_date \<Rightarrow> plex_show \<Rightarrow> provider \<Rightarrow> tmdb_series \<Rightarrow> int \<Rightarrow> locals" where
  "loop_locals today sh prov tmdb_data final =
     \<lparr>today_l = today, plex_seasons_l = season_index sh, has_episode_l = has_episode sh,
      all_tmdb_data_l =
        fetch_seasons (seasons_response prov) (chunks (season_numbers (season_index sh)) 20) [],
      final_season_index_l = final, tmdb_status_l = lower (status tmdb_data),
      latest_index_l = season_index sh ! latest_position (season_index sh)\<rparr>"

text \<open>
  The special label computed for the season of greatest index, from the inputs of the
  pass: none when the season was skipped or its last aired episode gives no label.
\<close>

definition latest_season_special :: "py_date \<Rightarrow> plex_show \<Rightarrow> provider \<Rightarrow> string option" where
  "latest_season_special today sh prov =
     (case series_response prov of
        None \<Rightarrow> None
      | Some tmdb_data \<Rightarrow>
          (case final_season_index (map fst
                  (fetch_seasons (seasons_response prov)
                     (chunks (season_numbers (season_index sh)) 20) [])) of
             Inl e \<Rightarrow> None
           | Inr final \<Rightarrow>
               (case season_outcome (loop_locals today sh prov tmdb_data final)
                       (season_index sh ! latest_position (season_index sh)) of
                  None \<Rightarrow> None
                | Some l \<Rightarrow> l)))"

text \<open>
  The special label that the pass derives for an entity: the label that \<^verbatim>\<open>set_label\<close> or
  \<^verbatim>\<open>set_episode_special_labels\<close> is called with for it; none for an entity for which
  neither is called (a skipped season and its episodes, a season or a show without a
  label, an episode without a candidate or not found in the library).
\<close>

definition desired_special :: "locals \<Rightarrow> entity \<Rightarrow> string option" where
  "desired_special c e =
     (case e of
        Show \<Rightarrow> (case season_outcome c (latest_index_l c) of None \<Rightarrow> None | Some l \<Rightarrow> l)
      | Season pos \<Rightarrow>
          (if pos < length (plex_seasons_l c)
           then (case season_outcome c (plex_seasons_l c ! pos) of None \<Rightarrow> None | Some l \<Rightarrow> l)
           else None)
      | Episode pos n \<Rightarrow>
          (if pos < length (plex_seasons_l c) \<and> has_episode_l c pos n
           then (case season_data c (plex_seasons_l c ! pos) of
                   None \<Rightarrow> None
                 | Some tmdb_episodes \<Rightarrow>
                     (case aired_episodes (today_l c) tmdb_episodes of
                        Inr (a # as) \<Rightarrow>
                          map_of (candidate_episodes (today_l c) (plex_seasons_l c ! pos)
                                    (final_season_index_l c) (tmdb_status_l c) tmdb_episodes []) n
                      | _ \<Rightarrow> None))
           else None))"

text \<open>The entities that the loop over the seasons visits for the season at a position.\<close>

fun at_position :: "nat \<Rightarrow> entity \<Rightarrow> bool" where
  "at_position pos Show = False"
| "at_position pos (Season i) = (i = pos)"
| "at_position pos (Episode i n) = (i = pos)"

section \<open>Example inputs\<close>

definition ex_today :: py_date where
  "ex_today = \<lparr>year = 2026, month = 11, day = 4\<rparr>"

definition next_on :: "py_date \<Rightarrow> next_episode" where
  "next_on d = \<lparr>air_date = IsoDate d, season_number = Some 2, episode_number = Some 5\<rparr>"

definition no_labels :: store where
  "no_labels = (\<lambda>e. \<lparr>labels = {}, loaded = {}\<rparr>)"

definition show_labelled :: "string set \<Rightarrow> store" where
  "show_labelled ls = no_labels(Show := \<lparr>labels = ls, loaded = ls\<rparr>)"

definition ex_show :: plex_show where
  "ex_show = \<lparr>tmdb_guid = Some ''1399'', season_index = [Some 1, Some 2],
              has_episode = (\<lambda>pos n. True)\<rparr>"

definition aired_ep :: "int \<Rightarrow> string \<Rightarrow> tmdb_episode" where
  "aired_ep n t = \<lparr>ep_air_date = IsoDate \<lparr>year = 2026, month = 10, day = n\<rparr>,
                   ep_episode_number = n, episode_type = t\<rparr>"

definition ex_seasons :: "int \<rightharpoonup> tmdb_episode list" where
  "ex_seasons = [1 \<mapsto> [aired_ep 1 ''standard'', aired_ep 2 ''finale''],
                 2 \<mapsto> [aired_ep 1 ''standard'', aired_ep 4 ''standard'']]"

definition ex_provider :: "string \<Rightarrow> next_episode option \<Rightarrow> provider" where
  "ex_provider s ne =
     \<lparr>series_response = Some \<lparr>last_air_date = Some 100, status = s, next_episode_to_air = ne\<rparr>,
      seasons_response = (\<lambda>batch. Some ex_seasons)\<rparr>"

definition in_3_days :: "next_episode option" where
  "in_3_days = Some (next_on \<lparr>year = 2026, month = 11, day = 7\<rparr>)"

definition in_10_days :: "next_episode option" where
  "in_10_days = Some (next_on \<lparr>year = 2026, month = 11, day = 14\<rparr>)"

definition first_run :: "outcome \<times> store \<times> update_log" where
  "first_run = process_show source_config ex_today 1000 ex_show
                 (ex_provider ''Returning Series'' in_3_days) (no_labels, Map.empty)"

definition second_run :: "outcome \<times> store \<times> update_log" where
  "second_run = process_show source_config ex_today 2000 ex_show
                  (ex_provider ''Returning Series'' in_3_days)
                  (load_objects (store_of first_run), log_of first_run)"

definition logged_500 :: update_log where
  "logged_500 = [''1399'' \<mapsto> 500]"

definition gated_run :: "outcome \<times> store \<times> update_log" where
  "gated_run = process_show source_config ex_today 1000 ex_show
                 (ex_provider ''Ended'' in_3_days) (no_labels, logged_500)"

definition new_season_3 :: "next_episode option" where
  "new_season_3 = Some \<lparr>air_date = IsoDate \<lparr>year = 2026, month = 11, day = 7\<rparr>,
                        season_number = Some 3, episode_number = Some 1\<rparr>"

definition new_season_run :: "outcome \<times> store \<times> update_log" where
  "new_season_run = process_show source_config ex_today 1000 ex_show
                      (ex_provider ''Returning Series'' new_season_3) (no_labels, Map.empty)"

definition one_season :: plex_show where
  "one_season = \<lparr>tmdb_guid = Some ''1399'', season_index = [Some 1],
                 has_episode = (\<lambda>pos n. True)\<rparr>"

definition failing_provider :: provider where
  "failing_provider =
     \<lparr>series_response = Some \<lparr>last_air_date = Some 100, status = ''Ended'',
                               next_episode_to_air = None\<rparr>,
      seasons_response = (\<lambda>batch. None)\<rparr>"

definition failed_fetch_run :: "outcome \<times> store \<times> update_log" where
  "failed_fetch_run = process_show source_config ex_today 1000 one_season failing_provider
                        (show_labelled {''Pilot''}, Map.empty)"

definition finale_run :: "outcome \<times> store \<times> update_log" where
  "finale_run = process_show source_config ex_today 1000 one_season
                  (ex_provider ''Ended'' None) (show_labelled {''Pilot''}, Map.empty)"

definition no_episodes_show :: plex_show where
  "no_episodes_show = \<lparr>tmdb_guid = Some ''1399'', season_index = [Some 2],
                       has_episode = (\<lambda>pos n. False)\<rparr>"

definition stale_specials :: store where
  "stale_specials = (show_labelled {''Pilot''})
                      (Season 0 := \<lparr>labels = {''Season Finale''}, loaded = {}\<rparr>)"

definition unrecorded_run :: "outcome \<times> store \<times> update_log" where
  "unrecorded_run = process_show source_config ex_today 1000 no_episodes_show
                      (ex_provider ''Ended'' None) (stale_specials, Map.empty)"

definition labelled_library :: store where
  "labelled_library =
     (show_labelled {''Favourite'', ''Pilot'', ''Status: Ended'', ''Returning 11/01''})
       (Season 1 := \<lparr>labels = {''Watchlist'', ''Season Premiere''}, loaded = {}\<rparr>,
        Episode 0 1 := \<lparr>labels = {''Pilot''}, loaded = {}\<rparr>)"

definition gated_labelled_run :: "outcome \<times> store \<times> update_log" where
  "gated_labelled_run = process_show source_config ex_today 1000 ex_show
                          (ex_provider ''Ended'' in_3_days) (labelled_library, logged_500)"

definition returning_library :: store where
  "returning_library = show_labelled {''Favourite'', ''Returning 11/11''}"

definition series_with :: "next_episode option \<Rightarrow> tmdb_series" where
  "series_with ne = \<lparr>last_air_date = Some 100, status = ''Ended'', next_episode_to_air = ne\<rparr>"

definition status_run :: "py_date \<Rightarrow> int option \<Rightarrow> store" where
  "status_run d latest_index =
     projr (set_status_label source_config ex_today (series_with (Some (next_on d))) ''ended''
              (Season 1) latest_index returning_library)"

definition ended_run :: "outcome \<times> store \<times> update_log" where
  "ended_run = process_show source_config ex_today 1000 ex_show
                 (ex_provider ''Ended'' None) (no_labels, Map.empty)"

definition season_1 :: "tmdb_episode list" where
  "season_1 = [aired_ep 1 ''standard'', aired_ep 2 ''finale'']"

definition unfetched_latest :: plex_show where
  "unfetched_latest = \<lparr>tmdb_guid = Some ''1399'', season_index = [Some 1, Some 3],
                       has_episode = (\<lambda>pos n. True)\<rparr>"

definition sibling_run :: "outcome \<times> store \<times> update_log" where
  "sibling_run = process_show source_config ex_today 1000 unfetched_latest
                   (ex_provider ''Ended'' None) (show_labelled {''Pilot''}, Map.empty)"

definition settled_run :: "outcome \<times> store \<times> update_log" where
  "settled_run = process_show source_config ex_today 2000 ex_show
                   (ex_provider ''Returning Series'' in_3_days)
                   (load_objects (store_of first_run), Map.empty)"

section \<open>Evaluation rules\<close>

lemmas date_defs = toordinal_def days_between_def days_before_year_def days_before_month_def
  DAYS_BEFORE_MONTH_def is_leap_def weekday_def strftime_A_def day_names_def two_digits_def
  strftime_md_def strftime_dm_def format_date_def date_le_def

section \<open>A next-episode payload with a zero\<close>

lemma upcoming_event_zero:
  assumes "season_number ne = Some 0 \<or> episode_number ne = Some 0"
  shows "upcoming_event cfg today (Some ne) latest_index = Inr No_Upcoming"
  using assms by (auto simp: upcoming_event_def truthy_def)

text \<open>
  C10. A next-episode payload whose season number or episode number is 0 selects no
  branch, whatever its air date: \<^verbatim>\<open>set_status_label\<close> does what it does when the payload
  is absent.
\<close>

theorem zero_is_missing:
  assumes "season_number ne = Some 0 \<or> episode_number ne = Some 0"
  shows "upcoming_event cfg today (Some ne) latest_index
           = upcoming_event cfg today None latest_index
       \<and> set_status_label cfg today (tmdb_data\<lparr>next_episode_to_air := Some ne\<rparr>) tmdb_status
             latest_season latest_index st
         = set_status_label cfg today (tmdb_data\<lparr>next_episode_to_air := None\<rparr>) tmdb_status
             latest_season latest_index st"
proof -
  have "upcoming_event cfg today None latest_index = Inr No_Upcoming"
    by (simp add: upcoming_event_def)
  with upcoming_event_zero [OF assms, of cfg today latest_index]
  show ?thesis by (simp add: set_status_label_def)
qed

theorem zero_is_missing_witness:
  "season_number (next_on ex_today\<lparr>season_number := Some 0\<rparr>) = Some 0
   \<and> upcoming_event source_config ex_today
        (Some (next_on ex_today\<lparr>season_number := Some 0\<rparr>)) (Some 2)
       = upcoming_event source_config ex_today None (Some 2)"
  using zero_is_missing
          [of "next_on ex_today\<lparr>season_number := Some 0\<rparr>" source_config ex_today "Some 2"]
  by (simp add: next_on_def)

section \<open>The greatest fetched season number\<close>

lemma fold_max_Max: "fold max ks (k::int) = Max (set (k # ks))"
  by (simp only: Max.set_eq_fold)

section \<open>What the operations do to the labels of the store\<close>

lemma labels_reload [simp]: "labels (reload obj st e) = labels (st e)"
  by (simp add: reload_def)

lemma loaded_reload [simp]:
  "loaded (reload obj st e) = (if e = obj then labels (st e) else loaded (st e))"
  by (simp add: reload_def)

lemma labels_addLabel [simp]:
  "labels (addLabel obj l st e) = (if e = obj then insert l (labels (st e)) else labels (st e))"
  by (simp add: addLabel_def)

lemma loaded_addLabel [simp]: "loaded (addLabel obj l st e) = loaded (st e)"
  by (simp add: addLabel_def)

lemma labels_removeLabels [simp]:
  "labels (removeLabels obj ls st e) = (if e = obj then labels (st e) - ls else labels (st e))"
  by (simp add: removeLabels_def)

lemma loaded_removeLabels [simp]: "loaded (removeLabels obj ls st e) = loaded (st e)"
  by (simp add: removeLabels_def)

lemma labels_addLabels [simp]:
  "labels (addLabels obj ls st e) = (if e = obj then labels (st e) \<union> ls else labels (st e))"
  by (simp add: addLabels_def)

lemma loaded_addLabels [simp]: "loaded (addLabels obj ls st e) = loaded (st e)"
  by (simp add: addLabels_def)

lemma fold_removeLabel: "fold (removeLabel obj) ls st = removeLabels obj (set ls) st"
proof (induction ls arbitrary: st)
  case Nil
  show ?case by (simp add: removeLabels_def)
next
  case (Cons l ls)
  have "removeLabels obj (set ls) (removeLabel obj l st) = removeLabels obj (set (l # ls)) st"
  proof -
    have "labels (st obj) - {l} - set ls = labels (st obj) - insert l (set ls)" by blast
    then show ?thesis by (simp add: removeLabels_def removeLabel_def fun_eq_iff)
  qed
  with Cons show ?case by simp
qed

lemma labels_replace_labels:
  "labels (replace_labels obj selected label st e) =
     (if e = obj then
        (if label \<in> labels (st e) then labels (st e) - {l. selected l}
         else insert label (labels (st e) - {l. selected l}))
      else labels (st e))"
  by (auto simp: replace_labels_def Let_def)

lemma loaded_replace_labels:
  "loaded (replace_labels obj selected label st e) =
     (if e = obj then labels (st e) else loaded (st e))"
  by (auto simp: replace_labels_def Let_def)

lemma labels_apply_status:
  "labels (apply_status tmdb_status st e) =
     (if e = Show then
        (let kept = labels (st Show) - (loaded (st Show) \<inter> STATUS_LABELS)
         in if tmdb_status \<noteq> [] \<and> ''Status: '' @ title tmdb_status \<notin> loaded (st Show)
            then insert (''Status: '' @ title tmdb_status) kept else kept)
      else labels (st e))"
  by (auto simp: apply_status_def Let_def)

lemma labels_set_label:
  "labels (fst (set_label obj label st) e) =
     (if e = obj then
        (labels (st e) - {l \<in> SPECIAL_LABELS. l \<noteq> label}) \<union> (if label \<noteq> [] then {label} else {})
      else labels (st e))"
  by (auto simp: set_label_def Let_def)

lemma modified_set_label:
  "snd (set_label obj label st) =
     (labels (st obj) \<inter> SPECIAL_LABELS - {label} \<noteq> {} \<or> (label \<noteq> [] \<and> label \<notin> labels (st obj)))"
  by (auto simp: set_label_def Let_def)

lemma labels_remove_all_special_labels:
  "labels (remove_all_special_labels obj st e) =
     (if e = obj then labels (st e) - SPECIAL_LABELS else labels (st e))"
  by (auto simp: remove_all_special_labels_def Let_def)

lemma labels_set_episode_special_labels:
  "labels (fst (set_episode_special_labels obj new_labels st) e) =
     (if e = obj then (labels (st e) - {l \<in> SPECIAL_LABELS. l \<notin> new_labels}) \<union> new_labels
      else labels (st e))"
  by (auto simp: set_episode_special_labels_def Let_def)

lemma modified_set_episode_special_labels:
  "snd (set_episode_special_labels obj new_labels st) =
     (labels (st obj) \<inter> SPECIAL_LABELS - new_labels \<noteq> {} \<or> \<not> new_labels \<subseteq> labels (st obj))"
  by (auto simp: set_episode_special_labels_def Let_def)

section \<open>Passes that leave more than one label, or change labels again\<close>

text \<open>
  C1. A second pass over an unchanged snapshot is meant to change no label. Here the
  first pass puts "New Episode Saturday" on the show and on the latest season and
  "Status: Returning Series" on the show; the second pass, on the same inputs, removes
  all three: the branch removes every loaded label with the prefix, the new label
  included, and then adds the label only if it was not loaded.
\<close>

theorem second_run_mutates:
  "outcome_of first_run = Processed
   \<and> labels (store_of first_run Show) = {''New Episode Saturday'', ''Status: Returning Series''}
   \<and> labels (store_of first_run (Season 1)) = {''New Episode Saturday''}
   \<and> labels (store_of second_run Show) = {}
   \<and> labels (store_of second_run (Season 1)) = {}"
  by code_simp

text \<open>
  C3. At most one label of each vocabulary is meant to be on an entity after a pass. A
  show that carries "New Episode Monday" and "Status: In Production", with a next
  episode ten days ahead and the status "Ended", ends the pass with two upcoming labels
  and two status labels.
\<close>

theorem two_upcoming_two_status:
  "labels (store_of (process_show source_config ex_today 1000 ex_show
             (ex_provider ''Ended'' in_10_days)
             (show_labelled {''New Episode Monday'', ''Status: In Production''}, Map.empty)) Show)
   = {''New Episode Monday'', ''Returning 11/14'', ''Status: In Production'', ''Status: Ended''}"
  by code_simp

text \<open>
  C4. Every upcoming label that differs from the derived one is meant to be removed,
  also when none is derived. A show that carries "New Episode Friday", with no next
  episode in the snapshot, keeps that label through the pass.
\<close>

theorem stale_upcoming_kept:
  "labels (store_of (process_show source_config ex_today 1000 ex_show
             (ex_provider ''Ended'' None)
             (show_labelled {''New Episode Friday''}, Map.empty)) Show)
   = {''New Episode Friday'', ''Status: Ended''}"
  by code_simp

section \<open>Status and upcoming reconciliation leaves the special labels alone\<close>

lemma upcoming_not_special: "is_upcoming l \<Longrightarrow> l \<notin> SPECIAL_LABELS"
  by (auto simp: is_upcoming_def startswith_def SPECIAL_LABELS_def)

lemma returning_not_special: "is_returning l \<Longrightarrow> l \<notin> SPECIAL_LABELS"
  by (auto simp: is_returning_def startswith_def SPECIAL_LABELS_def)

lemma status_not_special: "l \<in> STATUS_LABELS \<Longrightarrow> l \<notin> SPECIAL_LABELS"
  by (auto simp: STATUS_LABELS_def SPECIAL_LABELS_def)

lemma status_label_not_special: "''Status: '' @ s \<notin> SPECIAL_LABELS"
  by (simp add: SPECIAL_LABELS_def)

lemma upcoming_label_not_special:
  "''New Episode '' @ s \<notin> SPECIAL_LABELS" "''New Season '' @ s \<notin> SPECIAL_LABELS"
  "''Returning '' @ s \<notin> SPECIAL_LABELS"
  by (simp_all add: SPECIAL_LABELS_def)

lemma upcoming_label_not_status:
  "''New Episode '' @ s \<notin> STATUS_LABELS" "''New Season '' @ s \<notin> STATUS_LABELS"
  "''Returning '' @ s \<notin> STATUS_LABELS"
  by (simp_all add: STATUS_LABELS_def)

lemma special_replace_labels:
  assumes "\<And>l. selected l \<Longrightarrow> l \<notin> SPECIAL_LABELS" and "label \<notin> SPECIAL_LABELS"
  shows "labels (replace_labels obj selected label st e) \<inter> SPECIAL_LABELS
           = labels (st e) \<inter> SPECIAL_LABELS"
  using assms by (auto simp: labels_replace_labels)

lemma special_apply_upcoming:
  "labels (apply_upcoming u latest_season st e) \<inter> SPECIAL_LABELS = labels (st e) \<inter> SPECIAL_LABELS"
proof (cases u)
  case (New_Episode fd)
  have "labels (replace_labels latest_season is_upcoming (''New Episode '' @ fd)
                  (replace_labels Show is_upcoming (''New Episode '' @ fd) st) e) \<inter> SPECIAL_LABELS
          = labels (replace_labels Show is_upcoming (''New Episode '' @ fd) st e) \<inter> SPECIAL_LABELS"
    by (rule special_replace_labels) (rule upcoming_not_special, assumption, rule upcoming_label_not_special)
  also have "\<dots> = labels (st e) \<inter> SPECIAL_LABELS"
    by (rule special_replace_labels) (rule upcoming_not_special, assumption, rule upcoming_label_not_special)
  finally show ?thesis using New_Episode by (simp only: apply_upcoming.simps Let_def)
next
  case (New_Season fd)
  have "labels (replace_labels Show is_upcoming (''New Season '' @ fd) st e) \<inter> SPECIAL_LABELS
          = labels (st e) \<inter> SPECIAL_LABELS"
    by (rule special_replace_labels) (rule upcoming_not_special, assumption, rule upcoming_label_not_special)
  then show ?thesis using New_Season by (simp only: apply_upcoming.simps)
next
  case (Returning fd)
  have "labels (replace_labels Show is_returning (''Returning '' @ fd) st e) \<inter> SPECIAL_LABELS
          = labels (st e) \<inter> SPECIAL_LABELS"
    by (rule special_replace_labels) (rule returning_not_special, assumption, rule upcoming_label_not_special)
  then show ?thesis using Returning by (simp only: apply_upcoming.simps)
next
  case No_Upcoming
  then show ?thesis by simp
qed

lemma special_apply_status:
  "labels (apply_status tmdb_status st e) \<inter> SPECIAL_LABELS = labels (st e) \<inter> SPECIAL_LABELS"
  using status_not_special status_label_not_special [of "title tmdb_status"]
  by (auto simp: labels_apply_status Let_def)

lemma special_set_status_label:
  assumes "set_status_label cfg today tmdb_data tmdb_status latest_season latest_index st = Inr st'"
  shows "labels (st' e) \<inter> SPECIAL_LABELS = labels (st e) \<inter> SPECIAL_LABELS"
proof -
  from assms obtain u where "st' = apply_status tmdb_status (apply_upcoming u latest_season st)"
    by (auto simp: set_status_label_def split: sum.splits)
  then show ?thesis by (simp only: special_apply_status special_apply_upcoming)
qed

lemma frame_replace_labels: "e \<noteq> obj \<Longrightarrow> replace_labels obj selected label st e = st e"
  by (simp add: replace_labels_def Let_def reload_def removeLabels_def addLabel_def)

lemma frame_apply_upcoming:
  "e \<noteq> Show \<Longrightarrow> e \<noteq> latest_season \<Longrightarrow> apply_upcoming u latest_season st e = st e"
  by (cases u) (simp_all add: Let_def frame_replace_labels)

lemma frame_apply_status: "e \<noteq> Show \<Longrightarrow> apply_status tmdb_status st e = st e"
  by (simp add: apply_status_def Let_def removeLabels_def addLabel_def)

lemma frame_set_status_label:
  assumes "set_status_label cfg today tmdb_data tmdb_status latest_season latest_index st = Inr st'"
      and "e \<noteq> Show" and "e \<noteq> latest_season"
  shows "st' e = st e"
proof -
  from assms(1) obtain u where "st' = apply_status tmdb_status (apply_upcoming u latest_season st)"
    by (auto simp: set_status_label_def split: sum.splits)
  with assms(2,3) show ?thesis by (simp add: frame_apply_status frame_apply_upcoming)
qed

section \<open>The change gate\<close>

lemma not_should_process:
  assumes "\<forall>a. last_air_dt = Some a \<longrightarrow> a \<le> t"
  shows "\<not> should_process (Some t) last_air_dt"
  using assms by (cases last_air_dt) (auto simp: should_process_def)

lemma process_show_gated:
  assumes "tmdb_guid show = Some tmdb_id" and "series_response prov = Some d"
      and "\<not> should_process (update_log tmdb_id) (last_air_date d)"
  shows "process_show cfg today now show prov (st, update_log) =
           (if tmdb_id = [] then (No_Tmdb_Id, st, update_log)
            else if season_index show = [] then (No_Seasons, st, update_log)
            else case set_status_label cfg today d (lower (status d))
                        (Season (latest_position (season_index show)))
                        (season_index show ! latest_position (season_index show)) st of
                   Inl e \<Rightarrow> (Unexpected e, st, update_log)
                 | Inr st1 \<Rightarrow> (Not_Processed, st1, update_log))"
  using assms by (simp add: process_show_def Let_def split: sum.splits)

text \<open>
  C2 as stated fails: the series below has a log entry after its last air date, the
  pass ends as not processed, and yet the show and the latest season gain labels.
\<close>

theorem gated_show_is_relabelled:
  "outcome_of gated_run = Not_Processed
   \<and> labels (no_labels Show) = {}
   \<and> labels (store_of gated_run Show) = {''New Episode Saturday'', ''Status: Ended''}
   \<and> labels (no_labels (Season 1)) = {}
   \<and> labels (store_of gated_run (Season 1)) = {''New Episode Saturday''}"
  by code_simp

section \<open>Where the upcoming label is put\<close>

lemma labels_apply_status_other:
  assumes "l \<notin> STATUS_LABELS" and "l \<in> labels (st e)"
  shows "l \<in> labels (apply_status tmdb_status st e)"
  using assms by (auto simp: labels_apply_status Let_def)

lemma labels_apply_status_season:
  "labels (apply_status tmdb_status st (Season pos)) = labels (st (Season pos))"
  by (simp add: labels_apply_status)

text \<open>
  C5, as the code has it. A derived "New Episode" label that is not yet on the show is
  put on the show, and one that is not yet on the latest season is put on the latest
  season. A derived "New Season" or "Returning" label that is not yet on the show is
  put on the show, and the labels of the latest season stay as they are.
\<close>

theorem upcoming_mirroring:
  fixes st :: store
  defines "after u tmdb_status pos \<equiv> apply_status tmdb_status (apply_upcoming u (Season pos) st)"
  assumes "upcoming_event cfg today (next_episode_to_air tmdb_data) latest_index = Inr u"
  shows "set_status_label cfg today tmdb_data tmdb_status (Season pos) latest_index st
           = Inr (after u tmdb_status pos)
       \<and> (u = New_Episode fd \<longrightarrow>
            (''New Episode '' @ fd \<notin> labels (st Show)
               \<longrightarrow> ''New Episode '' @ fd \<in> labels (after u tmdb_status pos Show)) \<and>
            (''New Episode '' @ fd \<notin> labels (st (Season pos))
               \<longrightarrow> ''New Episode '' @ fd \<in> labels (after u tmdb_status pos (Season pos))))
       \<and> (u = New_Season fd \<longrightarrow>
            (''New Season '' @ fd \<notin> labels (st Show)
               \<longrightarrow> ''New Season '' @ fd \<in> labels (after u tmdb_status pos Show)) \<and>
            labels (after u tmdb_status pos (Season pos)) = labels (st (Season pos)))
       \<and> (u = Returning fd \<longrightarrow>
            (''Returning '' @ fd \<notin> labels (st Show)
               \<longrightarrow> ''Returning '' @ fd \<in> labels (after u tmdb_status pos Show)) \<and>
            labels (after u tmdb_status pos (Season pos)) = labels (st (Season pos)))"
proof (intro conjI impI)
  show "set_status_label cfg today tmdb_data tmdb_status (Season pos) latest_index st
          = Inr (after u tmdb_status pos)"
    using assms(2) by (simp add: set_status_label_def after_def)
next
  assume u: "u = New_Episode fd" and "''New Episode '' @ fd \<notin> labels (st Show)"
  then have "''New Episode '' @ fd \<in> labels (apply_upcoming u (Season pos) st Show)"
    by (simp add: Let_def labels_replace_labels)
  then show "''New Episode '' @ fd \<in> labels (after u tmdb_status pos Show)"
    unfolding after_def by (rule labels_apply_status_other [OF upcoming_label_not_status(1)])
next
  assume u: "u = New_Episode fd" and "''New Episode '' @ fd \<notin> labels (st (Season pos))"
  then have "''New Episode '' @ fd \<in> labels (apply_upcoming u (Season pos) st (Season pos))"
    by (simp add: Let_def labels_replace_labels)
  then show "''New Episode '' @ fd \<in> labels (after u tmdb_status pos (Season pos))"
    unfolding after_def by (rule labels_apply_status_other [OF upcoming_label_not_status(1)])
next
  assume u: "u = New_Season fd" and "''New Season '' @ fd \<notin> labels (st Show)"
  then have "''New Season '' @ fd \<in> labels (apply_upcoming u (Season pos) st Show)"
    by (simp add: labels_replace_labels)
  then show "''New Season '' @ fd \<in> labels (after u tmdb_status pos Show)"
    unfolding after_def by (rule labels_apply_status_other [OF upcoming_label_not_status(2)])
next
  assume "u = New_Season fd"
  then show "labels (after u tmdb_status pos (Season pos)) = labels (st (Season pos))"
    by (simp add: after_def labels_apply_status_season labels_replace_labels)
next
  assume u: "u = Returning fd" and "''Returning '' @ fd \<notin> labels (st Show)"
  then have "''Returning '' @ fd \<in> labels (apply_upcoming u (Season pos) st Show)"
    by (simp add: labels_replace_labels)
  then show "''Returning '' @ fd \<in> labels (after u tmdb_status pos Show)"
    unfolding after_def by (rule labels_apply_status_other [OF upcoming_label_not_status(3)])
next
  assume "u = Returning fd"
  then show "labels (after u tmdb_status pos (Season pos)) = labels (st (Season pos))"
    by (simp add: after_def labels_apply_status_season labels_replace_labels)
qed

theorem upcoming_mirroring_witness:
  "upcoming_event source_config ex_today in_3_days (Some 2) = Inr (New_Episode ''Saturday'')
   \<and> ''New Episode Saturday'' \<notin> labels (no_labels Show)
   \<and> ''New Episode Saturday''
        \<in> labels (apply_status ''ended''
                    (apply_upcoming (New_Episode ''Saturday'') (Season 1) no_labels) Show)
   \<and> ''New Episode Saturday''
        \<in> labels (apply_status ''ended''
                    (apply_upcoming (New_Episode ''Saturday'') (Season 1) no_labels) (Season 1))"
  using upcoming_mirroring [where cfg = source_config and today = ex_today
          and tmdb_data = "\<lparr>last_air_date = None, status = ''Ended'', next_episode_to_air = in_3_days\<rparr>"
          and latest_index = "Some 2" and u = "New_Episode ''Saturday''" and fd = "''Saturday''"
          and st = no_labels and pos = 1 and tmdb_status = "''ended''"]
  by (simp add: in_3_days_def next_on_def ex_today_def source_config_def upcoming_event_def
        truthy_def date_defs no_labels_def)

text \<open>
  C5 as stated fails: the derived label is "New Season Saturday"; after the pass it is
  on the show and not on the latest season.
\<close>

theorem new_season_not_mirrored:
  "upcoming_event source_config ex_today new_season_3 (Some 2) = Inr (New_Season ''Saturday'')
   \<and> outcome_of new_season_run = Processed
   \<and> ''New Season Saturday'' \<in> labels (store_of new_season_run Show)
   \<and> ''New Season Saturday'' \<notin> labels (store_of new_season_run (Season 1))"
  by code_simp

section \<open>The show takes the special label of the latest season\<close>

lemma process_season_latest:
  assumes "process_season c pos p = Inr p'"
  shows "latest_season_label p' =
           (if plex_seasons_l c ! pos = latest_index_l c
            then (case season_outcome c (latest_index_l c) of
                    None \<Rightarrow> latest_season_label p | Some l \<Rightarrow> l)
            else latest_season_label p)"
  using assms
  by (auto simp: process_season_def season_outcome_def Let_def
           split: option.splits sum.splits list.splits prod.splits if_splits)

lemma process_seasons_latest:
  assumes "process_seasons c ps p = (p', None)"
  shows "latest_season_label p' =
           (if \<exists>pos \<in> set ps. plex_seasons_l c ! pos = latest_index_l c
            then (case season_outcome c (latest_index_l c) of
                    None \<Rightarrow> latest_season_label p | Some l \<Rightarrow> l)
            else latest_season_label p)"
  using assms
proof (induction ps arbitrary: p)
  case Nil
  then show ?case by simp
next
  case (Cons pos ps)
  from Cons.prems obtain p1 where p1: "process_season c pos p = Inr p1"
    and rest: "process_seasons c ps p1 = (p', None)"
    by (auto split: sum.splits)
  show ?case
    using Cons.IH [OF rest] process_season_latest [OF p1]
    by (auto split: option.splits)
qed

lemma max_by_in: "max_by f b xs \<in> set (b # xs)"
  by (induction xs arbitrary: b) auto

lemma latest_position_less:
  assumes "plex_seasons \<noteq> []"
  shows "latest_position plex_seasons < length plex_seasons"
proof -
  have "latest_position plex_seasons \<in> set (0 # [1..<length plex_seasons])"
    unfolding latest_position_def by (rule max_by_in)
  with assms show ?thesis by auto
qed

lemma season_candidate_label_special:
  "season_candidate_label index final tmdb_status ep = Some l \<Longrightarrow> l \<in> SPECIAL_LABELS \<and> l \<noteq> []"
  by (auto simp: season_candidate_label_def SPECIAL_LABELS_def Let_def split: if_splits)

lemma episode_candidate_special:
  "episode_candidate index final tmdb_status ep = Some l \<Longrightarrow> l \<in> SPECIAL_LABELS \<and> l \<noteq> []"
  by (auto simp: episode_candidate_def SPECIAL_LABELS_def split: if_splits)

lemma season_outcome_special:
  "season_outcome c index = Some (Some l) \<Longrightarrow> l \<in> SPECIAL_LABELS \<and> l \<noteq> []"
  by (auto simp: season_outcome_def season_candidate_label_special
           split: option.splits sum.splits list.splits)

lemma special_after_set_label:
  assumes "l \<in> SPECIAL_LABELS" and "l \<noteq> []"
  shows "labels (fst (set_label obj l st) obj) \<inter> SPECIAL_LABELS = {l}"
  using assms by (auto simp: labels_set_label)

lemma special_after_remove_all:
  "labels (remove_all_special_labels obj st obj) \<inter> SPECIAL_LABELS = {}"
  by (auto simp: labels_remove_all_special_labels)

lemma process_show_processed:
  assumes "outcome_of (process_show cfg today now sh prov (st, update_log)) = Processed"
  obtains tmdb_id tmdb_data st1 final p where
    "tmdb_guid sh = Some tmdb_id" and "series_response prov = Some tmdb_data"
    and "season_index sh \<noteq> []"
    and "set_status_label cfg today tmdb_data (lower (status tmdb_data))
           (Season (latest_position (season_index sh)))
           (season_index sh ! latest_position (season_index sh)) st = Inr st1"
    and "process_seasons (loop_locals today sh prov tmdb_data final)
           [0..<length (season_index sh)]
           \<lparr>labelled = st1, latest_season_label = None, any_modified = False\<rparr> = (p, None)"
    and "final_season_index (map fst
           (fetch_seasons (seasons_response prov)
              (chunks (season_numbers (season_index sh)) 20) [])) = Inr final"
    and "store_of (process_show cfg today now sh prov (st, update_log)) =
           (case latest_season_label p of
              Some l \<Rightarrow> fst (set_label Show l (labelled p))
            | None \<Rightarrow> remove_all_special_labels Show (labelled p))"
    and "log_of (process_show cfg today now sh prov (st, update_log)) =
           (if any_modified p \<or>
               (case latest_season_label p of
                  Some l \<Rightarrow> snd (set_label Show l (labelled p))
                | None \<Rightarrow> False)
            then update_log(tmdb_id \<mapsto> now) else update_log)"
  using assms
  by (auto simp: process_show_def outcome_of_def store_of_def log_of_def Let_def loop_locals_def
           split: option.splits sum.splits if_splits prod.splits)

text \<open>
  When the pass runs to its end, the special labels of the show are exactly the special
  label computed for the season that \<^verbatim>\<open>max\<close> picks as the latest: that label alone when
  there is one, and none when there is none (the season was not fetched, or none of its
  episodes has aired, or its last aired episode gives no label).
\<close>

theorem show_mirrors_latest_season:
  fixes st :: store and update_log :: update_log and cfg :: config and today :: py_date
    and now :: int and sh :: plex_show and prov :: provider
  defines "r \<equiv> process_show cfg today now sh prov (st, update_log)"
  assumes "outcome_of r = Processed"
  shows "labels (store_of r Show) \<inter> SPECIAL_LABELS =
           (case latest_season_special today sh prov of None \<Rightarrow> {} | Some l \<Rightarrow> {l})"
proof -
  from assms(2) [unfolded r_def] obtain tmdb_id tmdb_data st1 final p where
    series: "series_response prov = Some tmdb_data"
    and seasons: "season_index sh \<noteq> []"
    and loop: "process_seasons (loop_locals today sh prov tmdb_data final)
                 [0..<length (season_index sh)]
                 \<lparr>labelled = st1, latest_season_label = None, any_modified = False\<rparr> = (p, None)"
    and final: "final_season_index (map fst
                  (fetch_seasons (seasons_response prov)
                     (chunks (season_numbers (season_index sh)) 20) [])) = Inr final"
    and store: "store_of r =
                  (case latest_season_label p of
                     Some l \<Rightarrow> fst (set_label Show l (labelled p))
                   | None \<Rightarrow> remove_all_special_labels Show (labelled p))"
    unfolding r_def by (rule process_show_processed)
  let ?c = "loop_locals today sh prov tmdb_data final"
  let ?latest = "season_index sh ! latest_position (season_index sh)"
  have idx: "plex_seasons_l ?c = season_index sh" "latest_index_l ?c = ?latest"
    by (simp_all add: loop_locals_def)
  have "\<exists>pos \<in> set [0..<length (season_index sh)]. plex_seasons_l ?c ! pos = latest_index_l ?c"
    using latest_position_less [OF seasons] by (auto simp: idx)
  with process_seasons_latest [OF loop]
  have latest: "latest_season_label p =
                  (case season_outcome ?c ?latest of None \<Rightarrow> None | Some l \<Rightarrow> l)"
    by (auto simp: idx split: option.splits)
  have spec: "latest_season_special today sh prov = latest_season_label p"
    by (simp add: latest_season_special_def series final latest)
  show ?thesis
  proof (cases "latest_season_label p")
    case None
    with store spec show ?thesis by (simp add: special_after_remove_all)
  next
    case (Some l)
    with latest have "season_outcome ?c ?latest = Some (Some l)"
      by (auto split: option.splits)
    then have "l \<in> SPECIAL_LABELS \<and> l \<noteq> []" by (rule season_outcome_special)
    with Some store spec show ?thesis by (simp add: special_after_set_label)
  qed
qed

theorem show_mirrors_latest_season_witness:
  "outcome_of finale_run = Processed
   \<and> latest_season_special ex_today one_season (ex_provider ''Ended'' None) = Some ''Series Finale''
   \<and> labels (store_of finale_run Show) \<inter> SPECIAL_LABELS = {''Series Finale''}"
proof -
  have p: "outcome_of finale_run = Processed" by code_simp
  have l: "latest_season_special ex_today one_season (ex_provider ''Ended'' None)
             = Some ''Series Finale''" by code_simp
  from show_mirrors_latest_season [OF p [unfolded finale_run_def]] p l
  show ?thesis by (simp add: finale_run_def)
qed

section \<open>What the loop over the seasons leaves alone\<close>

lemma frame_set_label: "e \<noteq> obj \<Longrightarrow> fst (set_label obj l st) e = st e"
  by (simp add: set_label_def Let_def reload_def removeLabels_def addLabel_def)

lemma frame_remove_all_special_labels:
  "e \<noteq> obj \<Longrightarrow> remove_all_special_labels obj st e = st e"
  by (simp add: remove_all_special_labels_def Let_def reload_def removeLabels_def)

lemma frame_set_episode_special_labels:
  "e \<noteq> obj \<Longrightarrow> fst (set_episode_special_labels obj new_labels st) e = st e"
  by (simp add: set_episode_special_labels_def Let_def reload_def removeLabels_def addLabels_def)

lemma special_after_set_episode:
  assumes "l \<in> SPECIAL_LABELS"
  shows "labels (fst (set_episode_special_labels obj {l} st) obj) \<inter> SPECIAL_LABELS = {l}"
  using assms by (auto simp: labels_set_episode_special_labels)

lemma label_episodes_frame:
  assumes "e \<notin> Episode pos ` fst ` set cs"
  shows "fst (label_episodes pos has cs (st, any)) e = st e"
  using assms
proof (induction cs arbitrary: st any)
  case Nil
  show ?case by simp
next
  case (Cons c cs)
  obtain n l where c: "c = (n, l)" by (cases c)
  from Cons.prems c have e: "e \<noteq> Episode pos n" and rest: "e \<notin> Episode pos ` fst ` set cs"
    by auto
  show ?case
  proof (cases "has pos n")
    case False
    with c Cons.IH [OF rest] show ?thesis by simp
  next
    case True
    obtain st' updated where s: "set_episode_special_labels (Episode pos n) {l} st = (st', updated)"
      by (cases "set_episode_special_labels (Episode pos n) {l} st")
    from frame_set_episode_special_labels [OF e, of "{l}" st] s have "st' e = st e" by simp
    with c True s Cons.IH [OF rest, of st' "any \<or> updated"] show ?thesis by simp
  qed
qed

lemma set_update_subset: "set (AList.update k v al) \<subseteq> insert (k, v) (set al)"
  by (induction al) auto

lemma candidate_episodes_distinct:
  "distinct (map fst acc) \<Longrightarrow>
   distinct (map fst (candidate_episodes today index final tmdb_status eps acc))"
  by (induction eps arbitrary: acc)
     (auto simp: distinct_update split: date_str.splits option.splits)

lemma candidate_episodes_special:
  "\<forall>c \<in> set acc. snd c \<in> SPECIAL_LABELS \<Longrightarrow>
   \<forall>c \<in> set (candidate_episodes today index final tmdb_status eps acc). snd c \<in> SPECIAL_LABELS"
proof (induction eps arbitrary: acc)
  case Nil
  then show ?case by simp
next
  case (Cons ep eps)
  have "\<forall>c \<in> set (AList.update (ep_episode_number ep) l acc). snd c \<in> SPECIAL_LABELS"
    if "episode_candidate index final tmdb_status ep = Some l" for l
    using set_update_subset [of "ep_episode_number ep" l acc] Cons.prems
      episode_candidate_special [OF that]
    by auto
  with Cons.prems show ?case
    by (auto intro!: Cons.IH split: date_str.splits option.splits simp del: split_paired_All)
qed

lemma process_season_frame:
  assumes "process_season c pos p = Inr p'" and "\<not> at_position pos e"
  shows "labelled p' e = labelled p e"
proof -
  from assms(2) have s: "e \<noteq> Season pos" and ep: "e \<notin> Episode pos ` fst ` set cs" for cs
    by (cases e; auto)+
  have ep': "fst (label_episodes pos has cs (st, any)) e = st e" for has cs st any
    using ep by (rule label_episodes_frame)
  from assms(1) show ?thesis
    using ep' frame_set_label [OF s] frame_remove_all_special_labels [OF s]
    by (auto simp: process_season_def Let_def
             split: option.splits sum.splits list.splits prod.splits;
        metis fst_conv)
qed

lemma process_seasons_frame:
  assumes "process_seasons c ps p = (p', err)" and "\<forall>pos \<in> set ps. \<not> at_position pos e"
  shows "labelled p' e = labelled p e"
  using assms
proof (induction ps arbitrary: p)
  case Nil
  then show ?case by simp
next
  case (Cons pos ps)
  show ?case
  proof (cases "process_season c pos p")
    case (Inl x)
    with Cons.prems show ?thesis by simp
  next
    case (Inr p1)
    with Cons.prems have "process_seasons c ps p1 = (p', err)" by simp
    with Cons.prems(2) have "labelled p' e = labelled p1 e" by (intro Cons.IH) auto
    also from Cons.prems(2) have "labelled p1 e = labelled p e"
      by (intro process_season_frame [OF Inr]) simp
    finally show ?thesis .
  qed
qed

lemma log_unless_processed:
  assumes "outcome_of (process_show cfg today now sh prov (st, update_log)) \<noteq> Processed"
  shows "log_of (process_show cfg today now sh prov (st, update_log)) = update_log"
  using assms
  by (auto simp: process_show_def outcome_of_def log_of_def Let_def
           split: option.splits sum.splits if_splits prod.splits)

text \<open>
  C6 as stated fails: the pass below removes "Pilot" from the show and "Season Finale"
  from a season through \<^verbatim>\<open>remove_all_special_labels\<close> and adds "Status: Ended" to the
  show, and writes no entry in the update log.
\<close>

theorem clearing_is_not_recorded:
  "outcome_of unrecorded_run = Processed
   \<and> labels (stale_specials Show) = {''Pilot''}
   \<and> labels (store_of unrecorded_run Show) = {''Status: Ended''}
   \<and> labels (stale_specials (Season 0)) = {''Season Finale''}
   \<and> labels (store_of unrecorded_run (Season 0)) = {}
   \<and> log_of unrecorded_run ''1399'' = None"
  by code_simp

section \<open>A skipped series: what the pass may still change\<close>

lemma returning_is_upcoming: "is_returning l \<Longrightarrow> is_upcoming l"
  by (simp add: is_returning_def is_upcoming_def)

lemma upcoming_label_is_upcoming:
  "is_upcoming (''New Episode '' @ s)" "is_upcoming (''New Season '' @ s)"
  "is_upcoming (''Returning '' @ s)"
  by (simp_all add: is_upcoming_def startswith_def)

lemma other_replace_labels:
  assumes "\<not> selected l" and "l \<noteq> label"
  shows "l \<in> labels (replace_labels obj selected label st e) \<longleftrightarrow> l \<in> labels (st e)"
  using assms by (auto simp: labels_replace_labels)

lemma other_apply_upcoming:
  assumes "\<not> is_upcoming l"
  shows "l \<in> labels (apply_upcoming u latest_season st e) \<longleftrightarrow> l \<in> labels (st e)"
proof (cases u)
  case (New_Episode fd)
  from assms upcoming_label_is_upcoming(1) [of fd] have ne: "l \<noteq> ''New Episode '' @ fd" by auto
  have "l \<in> labels (replace_labels latest_season is_upcoming (''New Episode '' @ fd)
                       (replace_labels Show is_upcoming (''New Episode '' @ fd) st) e)
          \<longleftrightarrow> l \<in> labels (replace_labels Show is_upcoming (''New Episode '' @ fd) st e)"
    using assms ne by (rule other_replace_labels)
  also have "\<dots> \<longleftrightarrow> l \<in> labels (st e)"
    using assms ne by (rule other_replace_labels)
  finally show ?thesis using New_Episode by (simp only: apply_upcoming.simps Let_def)
next
  case (New_Season fd)
  from assms upcoming_label_is_upcoming(2) [of fd] have ne: "l \<noteq> ''New Season '' @ fd" by auto
  have "l \<in> labels (replace_labels Show is_upcoming (''New Season '' @ fd) st e)
          \<longleftrightarrow> l \<in> labels (st e)"
    using assms ne by (rule other_replace_labels)
  then show ?thesis using New_Season by (simp only: apply_upcoming.simps)
next
  case (Returning fd)
  from assms upcoming_label_is_upcoming(3) [of fd] have ne: "l \<noteq> ''Returning '' @ fd" by auto
  from assms returning_is_upcoming have "\<not> is_returning l" by auto
  then have "l \<in> labels (replace_labels Show is_returning (''Returning '' @ fd) st e)
          \<longleftrightarrow> l \<in> labels (st e)"
    using ne by (rule other_replace_labels)
  then show ?thesis using Returning by (simp only: apply_upcoming.simps)
next
  case No_Upcoming
  then show ?thesis by simp
qed

lemma status_labels_prefixed: "l \<in> STATUS_LABELS \<Longrightarrow> startswith l ''Status: ''"
  by (auto simp: STATUS_LABELS_def startswith_def)

lemma other_apply_status:
  assumes "\<not> startswith l ''Status: ''"
  shows "l \<in> labels (apply_status tmdb_status st e) \<longleftrightarrow> l \<in> labels (st e)"
proof -
  from assms status_labels_prefixed have "l \<notin> STATUS_LABELS" by auto
  moreover from assms have "l \<noteq> ''Status: '' @ title tmdb_status"
    by (auto simp: startswith_def)
  ultimately show ?thesis by (auto simp: labels_apply_status Let_def)
qed

lemma labels_apply_status_elsewhere:
  "e \<noteq> Show \<Longrightarrow> labels (apply_status tmdb_status st e) = labels (st e)"
  by (simp add: labels_apply_status)

lemma other_set_status_label:
  assumes "set_status_label cfg today tmdb_data tmdb_status latest_season latest_index st = Inr st'"
      and "\<not> is_upcoming l" and "\<not> startswith l ''Status: '' \<or> e \<noteq> Show"
  shows "l \<in> labels (st' e) \<longleftrightarrow> l \<in> labels (st e)"
proof -
  from assms(1) obtain u where st': "st' = apply_status tmdb_status (apply_upcoming u latest_season st)"
    by (auto simp: set_status_label_def split: sum.splits)
  from assms(3) have "l \<in> labels (st' e) \<longleftrightarrow> l \<in> labels (apply_upcoming u latest_season st e)"
    unfolding st' by (auto simp: other_apply_status labels_apply_status_elsewhere)
  also have "\<dots> \<longleftrightarrow> l \<in> labels (st e)" using assms(2) by (rule other_apply_upcoming)
  finally show ?thesis .
qed

text \<open>
  C2, as the code has it. \<^verbatim>\<open>set_status_label\<close> is called before the gate, so a
  series that the gate skips (a prior time stamp, and no last air date after it) still
  has its status and upcoming labels reconciled, and nothing else: the pass does not end
  as processed, the update log is unchanged, no entity gains or loses a special label,
  every entity other than the show and the latest season (so every episode) is left as
  it was, a label of the show that has no upcoming prefix and does not start with
  "Status: " is on the show after the pass exactly when it was before, and a label of a
  season that has no upcoming prefix is on the season after the pass exactly when it was
  before.
\<close>

theorem gated_pass_frame:
  fixes st :: store and update_log :: update_log and cfg :: config and today :: py_date
    and now :: int and sh :: plex_show and prov :: provider
  defines "r \<equiv> process_show cfg today now sh prov (st, update_log)"
  assumes "tmdb_guid sh = Some tmdb_id" and "update_log tmdb_id = Some t"
      and "\<forall>d a. series_response prov = Some d \<and> last_air_date d = Some a \<longrightarrow> a \<le> t"
  shows "outcome_of r \<noteq> Processed
       \<and> log_of r = update_log
       \<and> (\<forall>e. labels (store_of r e) \<inter> SPECIAL_LABELS = labels (st e) \<inter> SPECIAL_LABELS)
       \<and> (\<forall>e. e \<noteq> Show \<and> e \<noteq> Season (latest_position (season_index sh))
               \<longrightarrow> store_of r e = st e)
       \<and> (\<forall>l. \<not> is_upcoming l \<and> \<not> startswith l ''Status: ''
               \<longrightarrow> (l \<in> labels (store_of r Show) \<longleftrightarrow> l \<in> labels (st Show)))
       \<and> (\<forall>l e. \<not> is_upcoming l \<and> e \<noteq> Show
               \<longrightarrow> (l \<in> labels (store_of r e) \<longleftrightarrow> l \<in> labels (st e)))"
proof (cases "series_response prov")
  case None
  with assms(2) show ?thesis
    by (simp add: r_def process_show_def outcome_of_def log_of_def store_of_def)
next
  case (Some d)
  with assms(3,4) have "\<not> should_process (update_log tmdb_id) (last_air_date d)"
    by (simp add: not_should_process)
  with assms(2) Some
  have "r = (if tmdb_id = [] then (No_Tmdb_Id, st, update_log)
             else if season_index sh = [] then (No_Seasons, st, update_log)
             else case set_status_label cfg today d (lower (status d))
                         (Season (latest_position (season_index sh)))
                         (season_index sh ! latest_position (season_index sh)) st of
                    Inl e \<Rightarrow> (Unexpected e, st, update_log)
                  | Inr st1 \<Rightarrow> (Not_Processed, st1, update_log))"
    unfolding r_def by (rule process_show_gated)
  then show ?thesis
    by (auto simp: outcome_of_def log_of_def store_of_def special_set_status_label
          frame_set_status_label other_set_status_label split: sum.splits)
qed

theorem gated_pass_frame_witness:
  "outcome_of gated_labelled_run \<noteq> Processed \<and> log_of gated_labelled_run = logged_500
   \<and> ''Favourite'' \<in> labels (store_of gated_labelled_run Show)
   \<and> ''Pilot'' \<in> labels (store_of gated_labelled_run Show)
   \<and> labels (store_of gated_labelled_run Show) \<inter> SPECIAL_LABELS = {''Pilot''}
   \<and> ''Watchlist'' \<in> labels (store_of gated_labelled_run (Season 1))
   \<and> ''Season Premiere'' \<in> labels (store_of gated_labelled_run (Season 1))
   \<and> labels (store_of gated_labelled_run (Episode 0 1)) = {''Pilot''}"
  using gated_pass_frame [where sh = ex_show and tmdb_id = "''1399''" and update_log = logged_500
          and t = 500 and prov = "ex_provider ''Ended'' in_3_days" and st = labelled_library
          and cfg = source_config and today = ex_today and now = 1000]
  by (simp add: gated_labelled_run_def ex_show_def logged_500_def ex_provider_def
        labelled_library_def show_labelled_def no_labels_def latest_position_def index_or_0_def
        is_upcoming_def startswith_def SPECIAL_LABELS_def)

section \<open>The upcoming labels of the show after the status step\<close>

lemma upcoming_not_status_prefixed: "is_upcoming l \<Longrightarrow> \<not> startswith l ''Status: ''"
  by (auto simp: is_upcoming_def startswith_def prefix_def)

lemma returning_label_is_returning: "is_returning (''Returning '' @ s)"
  by (simp add: is_returning_def startswith_def)

lemma upcoming_after_replace_all:
  assumes "is_upcoming l"
  shows "l \<in> labels (replace_labels Show is_upcoming label st Show)
           \<longleftrightarrow> l = label \<and> label \<notin> labels (st Show)"
  using assms by (auto simp: labels_replace_labels)

lemma upcoming_after_replace_returning:
  assumes "is_returning label"
  shows "l \<in> labels (replace_labels Show is_returning label st Show)
           \<longleftrightarrow> (l = label \<and> label \<notin> labels (st Show)) \<or> (l \<in> labels (st Show) \<and> \<not> is_returning l)"
  using assms by (auto simp: labels_replace_labels)

lemma labels_replace_labels_elsewhere:
  "e \<noteq> obj \<Longrightarrow> labels (replace_labels obj selected label st e) = labels (st e)"
  by (simp add: labels_replace_labels)

lemma upcoming_after_status:
  assumes "is_upcoming l"
  shows "l \<in> labels (apply_status tmdb_status st e) \<longleftrightarrow> l \<in> labels (st e)"
  using assms by (intro other_apply_status upcoming_not_status_prefixed)

lemma show_after_new_episode:
  assumes "is_upcoming l"
  shows "l \<in> labels (apply_status tmdb_status
                       (apply_upcoming (New_Episode fd) (Season pos) st) Show)
           \<longleftrightarrow> l = ''New Episode '' @ fd \<and> ''New Episode '' @ fd \<notin> labels (st Show)"
proof -
  define st1 where "st1 = replace_labels Show is_upcoming (''New Episode '' @ fd) st"
  have eq: "apply_upcoming (New_Episode fd) (Season pos) st
              = replace_labels (Season pos) is_upcoming (''New Episode '' @ fd) st1"
    by (simp only: apply_upcoming.simps Let_def st1_def)
  have "l \<in> labels (apply_status tmdb_status
                      (replace_labels (Season pos) is_upcoming (''New Episode '' @ fd) st1) Show)
          \<longleftrightarrow> l \<in> labels (replace_labels (Season pos) is_upcoming (''New Episode '' @ fd) st1 Show)"
    using assms by (rule upcoming_after_status)
  also have "\<dots> \<longleftrightarrow> l \<in> labels (st1 Show)"
    by (simp only: labels_replace_labels_elsewhere [of Show "Season pos"] entity.distinct
          not_False_eq_True)
  also have "\<dots> \<longleftrightarrow> l = ''New Episode '' @ fd \<and> ''New Episode '' @ fd \<notin> labels (st Show)"
    unfolding st1_def using assms by (rule upcoming_after_replace_all)
  finally show ?thesis unfolding eq .
qed

lemma show_after_new_season:
  assumes "is_upcoming l"
  shows "l \<in> labels (apply_status tmdb_status
                       (apply_upcoming (New_Season fd) (Season pos) st) Show)
           \<longleftrightarrow> l = ''New Season '' @ fd \<and> ''New Season '' @ fd \<notin> labels (st Show)"
proof -
  have eq: "apply_upcoming (New_Season fd) (Season pos) st
              = replace_labels Show is_upcoming (''New Season '' @ fd) st"
    by (simp only: apply_upcoming.simps)
  have "l \<in> labels (apply_status tmdb_status
                      (replace_labels Show is_upcoming (''New Season '' @ fd) st) Show)
          \<longleftrightarrow> l \<in> labels (replace_labels Show is_upcoming (''New Season '' @ fd) st Show)"
    using assms by (rule upcoming_after_status)
  also have "\<dots> \<longleftrightarrow> l = ''New Season '' @ fd \<and> ''New Season '' @ fd \<notin> labels (st Show)"
    using assms by (rule upcoming_after_replace_all)
  finally show ?thesis unfolding eq .
qed

lemma show_after_returning:
  assumes "is_upcoming l"
  shows "l \<in> labels (apply_status tmdb_status
                       (apply_upcoming (Returning fd) (Season pos) st) Show)
           \<longleftrightarrow> (l = ''Returning '' @ fd \<and> ''Returning '' @ fd \<notin> labels (st Show))
               \<or> (l \<in> labels (st Show) \<and> \<not> is_returning l)"
proof -
  have eq: "apply_upcoming (Returning fd) (Season pos) st
              = replace_labels Show is_returning (''Returning '' @ fd) st"
    by (simp only: apply_upcoming.simps)
  have "l \<in> labels (apply_status tmdb_status
                      (replace_labels Show is_returning (''Returning '' @ fd) st) Show)
          \<longleftrightarrow> l \<in> labels (replace_labels Show is_returning (''Returning '' @ fd) st Show)"
    using assms by (rule upcoming_after_status)
  also have "\<dots> \<longleftrightarrow> (l = ''Returning '' @ fd \<and> ''Returning '' @ fd \<notin> labels (st Show))
                   \<or> (l \<in> labels (st Show) \<and> \<not> is_returning l)"
    using returning_label_is_returning by (rule upcoming_after_replace_returning)
  finally show ?thesis unfolding eq .
qed

lemma upcoming_event_branch:
  assumes "air_date ne = IsoDate d"
      and "truthy (season_number ne)" and "truthy (episode_number ne)"
  shows "upcoming_event cfg today (Some ne) latest_index =
           Inr (if days_between d today \<le> DAYS_TO_CONSIDER cfg then
                  (if season_number ne = latest_index \<and> episode_number ne \<noteq> Some 1
                   then New_Episode (format_date cfg d (days_between d today))
                   else New_Season (format_date cfg d (days_between d today)))
                else if days_between d today \<le> RETURNING_DAYS cfg
                then Returning (format_date cfg d (days_between d today))
                else No_Upcoming)"
  using assms by (simp add: upcoming_event_def Let_def)

text \<open>
  C7. With a next-episode payload that has a valid air date and a season and an episode
  number that are not zero, the branch is selected by \<open>\<le>\<close> on both windows,
  \<^verbatim>\<open>set_status_label\<close> returns, and with \<open>days_until\<close> the air date minus today: up to and including \<open>DAYS_TO_CONSIDER\<close>, with no lower bound (so also
  for a negative \<open>days_until\<close>), the label "New Episode <date>" (the latest season and not
  episode 1) or "New Season <date>" is put on the show when the show does not carry it
  yet, and no other upcoming label stays on the show; at \<open>DAYS_TO_CONSIDER + 1\<close>, when that
  is at most \<open>RETURNING_DAYS\<close>, the label "Returning <date>" is put on the show when the
  show does not carry it yet, and no other upcoming label is added; at
  \<open>RETURNING_DAYS + 1\<close> (the windows being nested, as the constants 7 and 28 of the source
  are) no upcoming label is added or removed on any entity.
\<close>

theorem upcoming_window_boundaries:
  fixes cfg :: config and today d :: py_date and ne :: next_episode
    and latest_index :: "int option" and st :: store and tmdb_data :: tmdb_series
    and tmdb_status :: string and pos :: nat
  defines "days_until \<equiv> days_between d today"
  defines "formatted_date \<equiv> format_date cfg d (days_between d today)"
  defines "new_label \<equiv>
             (if season_number ne = latest_index \<and> episode_number ne \<noteq> Some 1
              then ''New Episode '' @ format_date cfg d (days_between d today)
              else ''New Season '' @ format_date cfg d (days_between d today))"
  defines "result \<equiv> set_status_label cfg today tmdb_data tmdb_status (Season pos) latest_index st"
  assumes "next_episode_to_air tmdb_data = Some ne" and "air_date ne = IsoDate d"
      and "truthy (season_number ne)" and "truthy (episode_number ne)"
  shows "upcoming_event cfg today (Some ne) latest_index =
           Inr (if days_until \<le> DAYS_TO_CONSIDER cfg then
                  (if season_number ne = latest_index \<and> episode_number ne \<noteq> Some 1
                   then New_Episode formatted_date else New_Season formatted_date)
                else if days_until \<le> RETURNING_DAYS cfg then Returning formatted_date
                else No_Upcoming)
       \<and> (\<exists>st'. result = Inr st'
       \<and> (days_until \<le> DAYS_TO_CONSIDER cfg \<longrightarrow>
            (new_label \<notin> labels (st Show) \<longrightarrow> new_label \<in> labels (st' Show))
          \<and> (\<forall>l. is_upcoming l \<and> l \<in> labels (st' Show) \<longrightarrow> l = new_label))
       \<and> (days_until = DAYS_TO_CONSIDER cfg + 1 \<and> days_until \<le> RETURNING_DAYS cfg \<longrightarrow>
            (''Returning '' @ formatted_date \<notin> labels (st Show)
               \<longrightarrow> ''Returning '' @ formatted_date \<in> labels (st' Show))
          \<and> (\<forall>l. is_upcoming l \<and> l \<in> labels (st' Show)
                 \<longrightarrow> l = ''Returning '' @ formatted_date \<or> l \<in> labels (st Show)))
       \<and> (DAYS_TO_CONSIDER cfg \<le> RETURNING_DAYS cfg \<and> days_until = RETURNING_DAYS cfg + 1 \<longrightarrow>
            (\<forall>e l. is_upcoming l \<longrightarrow> (l \<in> labels (st' e) \<longleftrightarrow> l \<in> labels (st e)))))"
proof -
  let ?fd = "format_date cfg d (days_between d today)"
  define u where
    "u = (if days_between d today \<le> DAYS_TO_CONSIDER cfg then
            (if season_number ne = latest_index \<and> episode_number ne \<noteq> Some 1
             then New_Episode ?fd else New_Season ?fd)
          else if days_between d today \<le> RETURNING_DAYS cfg then Returning ?fd
          else No_Upcoming)"
  define st' where "st' = apply_status tmdb_status (apply_upcoming u (Season pos) st)"
  have derived: "upcoming_event cfg today (Some ne) latest_index = Inr u"
    unfolding u_def using assms(6-8) by (rule upcoming_event_branch)
  with assms(5) have res: "result = Inr st'"
    by (simp add: result_def set_status_label_def st'_def)
  have new: "(new_label \<notin> labels (st Show) \<longrightarrow> new_label \<in> labels (st' Show))
           \<and> (\<forall>l. is_upcoming l \<and> l \<in> labels (st' Show) \<longrightarrow> l = new_label)"
    if "days_until \<le> DAYS_TO_CONSIDER cfg"
  proof (cases "season_number ne = latest_index \<and> episode_number ne \<noteq> Some 1")
    case True
    with that have u: "u = New_Episode ?fd" by (simp add: u_def days_until_def)
    from True have l: "new_label = ''New Episode '' @ ?fd" by (simp add: new_label_def)
    show ?thesis
      unfolding st'_def u l
      using show_after_new_episode [of _ tmdb_status ?fd pos st]
        upcoming_label_is_upcoming(1) [of ?fd]
      by blast
  next
    case False
    with that have u: "u = New_Season ?fd" by (simp add: u_def days_until_def)
    from False have l: "new_label = ''New Season '' @ ?fd" by (simp add: new_label_def)
    show ?thesis
      unfolding st'_def u l
      using show_after_new_season [of _ tmdb_status ?fd pos st]
        upcoming_label_is_upcoming(2) [of ?fd]
      by blast
  qed
  have ret: "(''Returning '' @ formatted_date \<notin> labels (st Show)
                \<longrightarrow> ''Returning '' @ formatted_date \<in> labels (st' Show))
           \<and> (\<forall>l. is_upcoming l \<and> l \<in> labels (st' Show)
                  \<longrightarrow> l = ''Returning '' @ formatted_date \<or> l \<in> labels (st Show))"
    if "days_until = DAYS_TO_CONSIDER cfg + 1" and "days_until \<le> RETURNING_DAYS cfg"
  proof -
    from that have u: "u = Returning ?fd" by (simp add: u_def days_until_def)
    show ?thesis
      unfolding st'_def u formatted_date_def
      using show_after_returning [of _ tmdb_status ?fd pos st]
        upcoming_label_is_upcoming(3) [of ?fd]
      by blast
  qed
  have none: "\<forall>e l. is_upcoming l \<longrightarrow> (l \<in> labels (st' e) \<longleftrightarrow> l \<in> labels (st e))"
    if "DAYS_TO_CONSIDER cfg \<le> RETURNING_DAYS cfg" and "days_until = RETURNING_DAYS cfg + 1"
  proof -
    from that have "u = No_Upcoming" by (simp add: u_def days_until_def)
    then show ?thesis by (simp add: st'_def upcoming_after_status)
  qed
  from res new ret none
  have "\<exists>st'. result = Inr st'
       \<and> (days_until \<le> DAYS_TO_CONSIDER cfg \<longrightarrow>
            (new_label \<notin> labels (st Show) \<longrightarrow> new_label \<in> labels (st' Show))
          \<and> (\<forall>l. is_upcoming l \<and> l \<in> labels (st' Show) \<longrightarrow> l = new_label))
       \<and> (days_until = DAYS_TO_CONSIDER cfg + 1 \<and> days_until \<le> RETURNING_DAYS cfg \<longrightarrow>
            (''Returning '' @ formatted_date \<notin> labels (st Show)
               \<longrightarrow> ''Returning '' @ formatted_date \<in> labels (st' Show))
          \<and> (\<forall>l. is_upcoming l \<and> l \<in> labels (st' Show)
                 \<longrightarrow> l = ''Returning '' @ formatted_date \<or> l \<in> labels (st Show)))
       \<and> (DAYS_TO_CONSIDER cfg \<le> RETURNING_DAYS cfg \<and> days_until = RETURNING_DAYS cfg + 1 \<longrightarrow>
            (\<forall>e l. is_upcoming l \<longrightarrow> (l \<in> labels (st' e) \<longleftrightarrow> l \<in> labels (st e))))"
    by blast
  with derived show ?thesis
    unfolding u_def days_until_def formatted_date_def by (intro conjI)
qed

theorem upcoming_window_boundaries_witness:
  "''New Episode Wednesday'' \<in> labels (status_run \<lparr>year = 2026, month = 11, day = 11\<rparr> (Some 2) Show)
   \<and> ''Returning 11/11'' \<notin> labels (status_run \<lparr>year = 2026, month = 11, day = 11\<rparr> (Some 2) Show)
   \<and> ''Returning 11/12'' \<in> labels (status_run \<lparr>year = 2026, month = 11, day = 12\<rparr> (Some 2) Show)
   \<and> ''Returning 11/11'' \<in> labels (status_run \<lparr>year = 2026, month = 12, day = 3\<rparr> (Some 2) Show)
   \<and> ''New Season Friday'' \<in> labels (status_run \<lparr>year = 2026, month = 10, day = 30\<rparr> (Some 3) Show)"
proof -
  note defs = next_on_def ex_today_def source_config_def truthy_def date_defs series_with_def
    returning_library_def show_labelled_def no_labels_def status_run_def
  have up: "is_upcoming ''Returning 11/11''" by (simp add: is_upcoming_def startswith_def)
  from upcoming_window_boundaries
         [where ne = "next_on \<lparr>year = 2026, month = 11, day = 11\<rparr>"
            and d = "\<lparr>year = 2026, month = 11, day = 11\<rparr>"
            and tmdb_data = "series_with (Some (next_on \<lparr>year = 2026, month = 11, day = 11\<rparr>))"
            and cfg = source_config and today = ex_today and latest_index = "Some 2"
            and st = returning_library and tmdb_status = "''ended''" and pos = 1]
  have a: "''New Episode Wednesday'' \<in> labels (status_run \<lparr>year = 2026, month = 11, day = 11\<rparr> (Some 2) Show)
         \<and> ''Returning 11/11'' \<notin> labels (status_run \<lparr>year = 2026, month = 11, day = 11\<rparr> (Some 2) Show)"
    using up by (auto simp: defs)
  from upcoming_window_boundaries
         [where ne = "next_on \<lparr>year = 2026, month = 11, day = 12\<rparr>"
            and d = "\<lparr>year = 2026, month = 11, day = 12\<rparr>"
            and tmdb_data = "series_with (Some (next_on \<lparr>year = 2026, month = 11, day = 12\<rparr>))"
            and cfg = source_config and today = ex_today and latest_index = "Some 2"
            and st = returning_library and tmdb_status = "''ended''" and pos = 1]
  have b: "''Returning 11/12'' \<in> labels (status_run \<lparr>year = 2026, month = 11, day = 12\<rparr> (Some 2) Show)"
    by (auto simp: defs)
  from upcoming_window_boundaries
         [where ne = "next_on \<lparr>year = 2026, month = 12, day = 3\<rparr>"
            and d = "\<lparr>year = 2026, month = 12, day = 3\<rparr>"
            and tmdb_data = "series_with (Some (next_on \<lparr>year = 2026, month = 12, day = 3\<rparr>))"
            and cfg = source_config and today = ex_today and latest_index = "Some 2"
            and st = returning_library and tmdb_status = "''ended''" and pos = 1]
  have c: "''Returning 11/11'' \<in> labels (status_run \<lparr>year = 2026, month = 12, day = 3\<rparr> (Some 2) Show)"
    using up by (auto simp: defs)
  from upcoming_window_boundaries
         [where ne = "next_on \<lparr>year = 2026, month = 10, day = 30\<rparr>"
            and d = "\<lparr>year = 2026, month = 10, day = 30\<rparr>"
            and tmdb_data = "series_with (Some (next_on \<lparr>year = 2026, month = 10, day = 30\<rparr>))"
            and cfg = source_config and today = ex_today and latest_index = "Some 3"
            and st = returning_library and tmdb_status = "''ended''" and pos = 1]
  have d: "''New Season Friday'' \<in> labels (status_run \<lparr>year = 2026, month = 10, day = 30\<rparr> (Some 3) Show)"
    by (auto simp: defs)
  from a b c d show ?thesis by blast
qed

section \<open>The special labels and the flag after the loop over the seasons\<close>

lemma set_label_flag:
  assumes "l \<in> SPECIAL_LABELS" and "l \<noteq> []"
  shows "snd (set_label obj l st) \<longleftrightarrow> labels (st obj) \<inter> SPECIAL_LABELS \<noteq> {l}"
  using assms by (auto simp: modified_set_label)

lemma set_episode_flag:
  assumes "l \<in> SPECIAL_LABELS"
  shows "snd (set_episode_special_labels obj {l} st) \<longleftrightarrow> labels (st obj) \<inter> SPECIAL_LABELS \<noteq> {l}"
  using assms by (auto simp: modified_set_episode_special_labels)

lemma label_episodes_special:
  assumes "distinct (map fst cs)" and "(n, l) \<in> set cs" and "has pos n" and "l \<in> SPECIAL_LABELS"
  shows "labels (fst (label_episodes pos has cs (st, any)) (Episode pos n)) \<inter> SPECIAL_LABELS = {l}"
  using assms(1,2)
proof (induction cs arbitrary: st any)
  case Nil
  then show ?case by simp
next
  case (Cons c cs)
  obtain m k where c: "c = (m, k)" by (cases c)
  from Cons.prems c have dist: "distinct (map fst cs)" and m: "m \<notin> fst ` set cs" by auto
  show ?case
  proof (cases "(n, l) = (m, k)")
    case True
    obtain st' updated where s: "set_episode_special_labels (Episode pos n) {l} st = (st', updated)"
      by (cases "set_episode_special_labels (Episode pos n) {l} st")
    from special_after_set_episode [OF assms(4), of "Episode pos n" st] s
    have "labels (st' (Episode pos n)) \<inter> SPECIAL_LABELS = {l}" by simp
    moreover have "fst (label_episodes pos has cs (st', any \<or> updated)) (Episode pos n)
                     = st' (Episode pos n)"
      using m True by (intro label_episodes_frame) auto
    ultimately show ?thesis using c True s assms(3) by simp
  next
    case False
    with Cons.prems(2) c have "(n, l) \<in> set cs" by auto
    from Cons.IH [OF dist this] c show ?thesis
      by (cases "has pos m") (simp_all add: case_prod_beta)
  qed
qed

lemma label_episodes_flag:
  assumes "distinct (map fst cs)" and "\<forall>c \<in> set cs. snd c \<in> SPECIAL_LABELS"
  shows "snd (label_episodes pos has cs (st, any)) \<longleftrightarrow>
           any \<or> (\<exists>c \<in> set cs. has pos (fst c) \<and>
                     labels (st (Episode pos (fst c))) \<inter> SPECIAL_LABELS \<noteq> {snd c})"
  using assms
proof (induction cs arbitrary: st any)
  case Nil
  then show ?case by simp
next
  case (Cons c cs)
  obtain n l where c: "c = (n, l)" by (cases c)
  from Cons.prems c have dist: "distinct (map fst cs)" and n: "n \<notin> fst ` set cs"
    and spec: "\<forall>c \<in> set cs. snd c \<in> SPECIAL_LABELS" and l: "l \<in> SPECIAL_LABELS"
    by auto
  show ?case
  proof (cases "has pos n")
    case False
    with Cons.IH [OF dist spec, of st any] c show ?thesis by simp
  next
    case True
    obtain st' updated where s: "set_episode_special_labels (Episode pos n) {l} st = (st', updated)"
      by (cases "set_episode_special_labels (Episode pos n) {l} st")
    have upd: "updated \<longleftrightarrow> labels (st (Episode pos n)) \<inter> SPECIAL_LABELS \<noteq> {l}"
      using set_episode_flag [OF l, of "Episode pos n" st] s by simp
    have same: "st' (Episode pos (fst d)) = st (Episode pos (fst d))" if "d \<in> set cs" for d
    proof -
      from that n have "fst d \<noteq> n" by auto
      then show ?thesis
        using frame_set_episode_special_labels [of "Episode pos (fst d)" "Episode pos n" "{l}" st] s
        by simp
    qed
    from Cons.IH [OF dist spec, of st' "any \<or> updated"]
    have "snd (label_episodes pos has cs (st', any \<or> updated)) \<longleftrightarrow>
            (any \<or> updated) \<or> (\<exists>d \<in> set cs. has pos (fst d) \<and>
               labels (st (Episode pos (fst d))) \<inter> SPECIAL_LABELS \<noteq> {snd d})"
      using same by auto
    with c True s upd show ?thesis by auto
  qed
qed

lemma process_season_skipped:
  assumes "process_season c pos p = Inr p'" and "season_outcome c (plex_seasons_l c ! pos) = None"
  shows "any_modified p' = any_modified p"
  using assms
  by (auto simp: process_season_def season_outcome_def Let_def
           split: option.splits sum.splits list.splits)

lemma process_season_processed:
  assumes "process_season c pos p = Inr p'"
      and "season_data c (plex_seasons_l c ! pos) = Some eps"
      and "aired_episodes (today_l c) eps = Inr (a # as)"
  defines "season_label \<equiv>
             season_candidate_label (plex_seasons_l c ! pos) (final_season_index_l c)
               (tmdb_status_l c) (max_by ep_episode_number a as)"
  defines "first \<equiv> (case season_label of
                       Some l \<Rightarrow> set_label (Season pos) l (labelled p)
                     | None \<Rightarrow> (remove_all_special_labels (Season pos) (labelled p), False))"
  defines "cands \<equiv> candidate_episodes (today_l c) (plex_seasons_l c ! pos)
                      (final_season_index_l c) (tmdb_status_l c) eps []"
  shows "labelled p' = fst (label_episodes pos (has_episode_l c) cands
                              (fst first, any_modified p \<or> snd first))"
    and "any_modified p' = snd (label_episodes pos (has_episode_l c) cands
                              (fst first, any_modified p \<or> snd first))"
  using assms(1-3)
  by (auto simp: process_season_def Let_def first_def season_label_def cands_def case_prod_beta)

lemma process_season_exact:
  assumes run: "process_season c pos p = Inr p'" and pos: "pos < length (plex_seasons_l c)"
  shows "(\<forall>e l. at_position pos e \<and> desired_special c e = Some l
                 \<longrightarrow> labels (labelled p' e) \<inter> SPECIAL_LABELS = {l})
       \<and> (any_modified p' \<longleftrightarrow>
            any_modified p \<or>
            (\<exists>e l. at_position pos e \<and> desired_special c e = Some l
                    \<and> labels (labelled p e) \<inter> SPECIAL_LABELS \<noteq> {l}))"
proof (cases "season_outcome c (plex_seasons_l c ! pos)")
  case None
  have "desired_special c e = None" if "at_position pos e" for e
    using that None
    by (cases e)
       (auto simp: desired_special_def season_outcome_def
             split: option.splits sum.splits list.splits)
  with process_season_skipped [OF run None] show ?thesis by auto
next
  case (Some season_label)
  then obtain eps a as where
    data: "season_data c (plex_seasons_l c ! pos) = Some eps"
    and aired: "aired_episodes (today_l c) eps = Inr (a # as)"
    and sl: "season_label = season_candidate_label (plex_seasons_l c ! pos)
                              (final_season_index_l c) (tmdb_status_l c)
                              (max_by ep_episode_number a as)"
    by (auto simp: season_outcome_def split: option.splits sum.splits list.splits)
  define first where
    "first = (case season_label of
                Some l \<Rightarrow> set_label (Season pos) l (labelled p)
              | None \<Rightarrow> (remove_all_special_labels (Season pos) (labelled p), False))"
  define cands where
    "cands = candidate_episodes (today_l c) (plex_seasons_l c ! pos)
               (final_season_index_l c) (tmdb_status_l c) eps []"
  define final where
    "final = label_episodes pos (has_episode_l c) cands (fst first, any_modified p \<or> snd first)"
  from process_season_processed [OF run data aired]
  have st: "labelled p' = fst final" and any: "any_modified p' = snd final"
    by (simp_all add: final_def first_def cands_def sl)
  have dist: "distinct (map fst cands)"
    unfolding cands_def by (rule candidate_episodes_distinct) simp
  have spec: "\<forall>c \<in> set cands. snd c \<in> SPECIAL_LABELS"
    unfolding cands_def by (rule candidate_episodes_special) simp
  have season_kept: "fst final (Season pos) = fst first (Season pos)"
    unfolding final_def by (rule label_episodes_frame) auto
  have episode_before: "fst first (Episode pos n) = labelled p (Episode pos n)" for n
    by (cases season_label)
       (simp_all add: first_def frame_set_label frame_remove_all_special_labels)
  have d_season: "desired_special c (Season pos) = season_label"
    using pos Some by (simp add: desired_special_def)
  have d_episode: "desired_special c (Episode pos n) =
                     (if has_episode_l c pos n then map_of cands n else None)" for n
    using pos data aired by (simp add: desired_special_def cands_def)
  have in_cands: "map_of cands n = Some l \<longleftrightarrow> (n, l) \<in> set cands" for n l
    using dist by simp
  have first_special: "labels (fst first (Season pos)) \<inter> SPECIAL_LABELS = {l}"
    and first_flag: "snd first \<longleftrightarrow> labels (labelled p (Season pos)) \<inter> SPECIAL_LABELS \<noteq> {l}"
    if "season_label = Some l" for l
  proof -
    from that sl have l: "l \<in> SPECIAL_LABELS \<and> l \<noteq> []"
      by (intro season_candidate_label_special) simp
    with that show "labels (fst first (Season pos)) \<inter> SPECIAL_LABELS = {l}"
      by (simp add: first_def special_after_set_label)
    from l that show "snd first \<longleftrightarrow> labels (labelled p (Season pos)) \<inter> SPECIAL_LABELS \<noteq> {l}"
      by (simp add: first_def set_label_flag)
  qed
  have no_flag: "\<not> snd first" if "season_label = None"
    using that by (simp add: first_def)
  have special: "labels (labelled p' e) \<inter> SPECIAL_LABELS = {l}"
    if e: "at_position pos e" and d: "desired_special c e = Some l" for e l
  proof (cases e)
    case Show
    with e show ?thesis by simp
  next
    case (Season i)
    with e have i: "i = pos" by simp
    with d Season d_season have "season_label = Some l" by simp
    then show ?thesis using Season i st season_kept first_special by simp
  next
    case (Episode i n)
    with e have i: "i = pos" by simp
    with d Episode d_episode [of n] have has: "has_episode_l c pos n" and "map_of cands n = Some l"
      by (auto split: if_splits)
    then have mem: "(n, l) \<in> set cands" using in_cands by simp
    with spec have "l \<in> SPECIAL_LABELS" by auto
    with dist mem has
    have "labels (fst final (Episode pos n)) \<inter> SPECIAL_LABELS = {l}"
      unfolding final_def by (intro label_episodes_special)
    then show ?thesis using Episode i st by simp
  qed
  define ch where "ch e l \<longleftrightarrow> labels (labelled p e) \<inter> SPECIAL_LABELS \<noteq> {l}" for e l
  have "snd final \<longleftrightarrow>
          (any_modified p \<or> snd first) \<or>
          (\<exists>d \<in> set cands. has_episode_l c pos (fst d) \<and>
              labels (fst first (Episode pos (fst d))) \<inter> SPECIAL_LABELS \<noteq> {snd d})"
    unfolding final_def using dist spec by (rule label_episodes_flag)
  then have "any_modified p' \<longleftrightarrow>
          (any_modified p \<or> snd first) \<or>
          (\<exists>d \<in> set cands. has_episode_l c pos (fst d) \<and> ch (Episode pos (fst d)) (snd d))"
    by (simp only: any episode_before ch_def)
  also have "(\<exists>d \<in> set cands. has_episode_l c pos (fst d) \<and> ch (Episode pos (fst d)) (snd d))
               \<longleftrightarrow> (\<exists>n l. (n, l) \<in> set cands \<and> has_episode_l c pos n \<and> ch (Episode pos n) l)"
    by force
  also have "\<dots> \<longleftrightarrow> (\<exists>n l. desired_special c (Episode pos n) = Some l \<and> ch (Episode pos n) l)"
    using d_episode in_cands by auto
  finally have flag0: "any_modified p' \<longleftrightarrow>
          (any_modified p \<or> snd first) \<or>
          (\<exists>n l. desired_special c (Episode pos n) = Some l \<and> ch (Episode pos n) l)" .
  have season_part: "snd first \<longleftrightarrow>
          (\<exists>l. desired_special c (Season pos) = Some l \<and> ch (Season pos) l)"
    using first_flag no_flag d_season unfolding ch_def by (cases season_label) auto
  have split_entities:
    "(\<exists>e l. at_position pos e \<and> desired_special c e = Some l \<and> ch e l) \<longleftrightarrow>
     (\<exists>l. desired_special c (Season pos) = Some l \<and> ch (Season pos) l)
     \<or> (\<exists>n l. desired_special c (Episode pos n) = Some l \<and> ch (Episode pos n) l)"
    (is "?lhs \<longleftrightarrow> ?rhs")
  proof
    assume ?lhs
    then obtain e l where e: "at_position pos e" "desired_special c e = Some l" "ch e l"
      by blast
    then show ?rhs by (cases e) auto
  next
    assume ?rhs
    then show ?lhs
    proof
      assume "\<exists>l. desired_special c (Season pos) = Some l \<and> ch (Season pos) l"
      then show ?lhs by (intro exI [of _ "Season pos"]) simp
    next
      assume "\<exists>n l. desired_special c (Episode pos n) = Some l \<and> ch (Episode pos n) l"
      then obtain n l where "desired_special c (Episode pos n) = Some l" "ch (Episode pos n) l"
        by blast
      then show ?lhs by (intro exI [of _ "Episode pos n"] exI [of _ l]) simp
    qed
  qed
  from flag0 season_part split_entities
  have "any_modified p' \<longleftrightarrow>
          any_modified p \<or> (\<exists>e l. at_position pos e \<and> desired_special c e = Some l \<and> ch e l)"
    by blast
  with special show ?thesis unfolding ch_def by blast
qed

lemma at_position_unique: "at_position pos e \<Longrightarrow> at_position q e \<Longrightarrow> q = pos"
  by (cases e) auto

lemma process_seasons_exact:
  assumes "distinct ps" and "\<forall>pos \<in> set ps. pos < length (plex_seasons_l c)"
      and "process_seasons c ps p = (p', None)"
  shows "(\<forall>pos \<in> set ps. \<forall>e l. at_position pos e \<and> desired_special c e = Some l
                 \<longrightarrow> labels (labelled p' e) \<inter> SPECIAL_LABELS = {l})
       \<and> (any_modified p' \<longleftrightarrow>
            any_modified p \<or>
            (\<exists>pos \<in> set ps. \<exists>e l. at_position pos e \<and> desired_special c e = Some l
                    \<and> labels (labelled p e) \<inter> SPECIAL_LABELS \<noteq> {l}))"
  using assms
proof (induction ps arbitrary: p)
  case Nil
  then show ?case by simp
next
  case (Cons pos ps)
  from Cons.prems(3) obtain p1 where step: "process_season c pos p = Inr p1"
    and rest: "process_seasons c ps p1 = (p', None)"
    by (auto split: sum.splits)
  from Cons.prems(1,2) have dist: "distinct ps" and fresh: "pos \<notin> set ps"
    and bound: "\<forall>q \<in> set ps. q < length (plex_seasons_l c)"
    and pos: "pos < length (plex_seasons_l c)"
    by simp_all
  define ch where "ch q e l \<longleftrightarrow> labels (labelled q e) \<inter> SPECIAL_LABELS \<noteq> {l}"
    for q :: progress and e l
  note one = process_season_exact [OF step pos]
  note more = Cons.IH [OF dist bound rest]
  have kept: "labelled p' e = labelled p1 e" if "at_position pos e" for e
  proof -
    from that fresh have "\<forall>q \<in> set ps. \<not> at_position q e"
      using at_position_unique by blast
    with rest show ?thesis by (rule process_seasons_frame)
  qed
  have before: "labelled p1 e = labelled p e" if "q \<in> set ps" and "at_position q e" for q e
  proof -
    from that fresh have "\<not> at_position pos e" using at_position_unique by blast
    with step show ?thesis by (rule process_season_frame)
  qed
  have special: "labels (labelled p' e) \<inter> SPECIAL_LABELS = {l}"
    if "q \<in> set (pos # ps)" and "at_position q e" and "desired_special c e = Some l" for q e l
  proof (cases "q = pos")
    case True
    with that one have "labels (labelled p1 e) \<inter> SPECIAL_LABELS = {l}" by blast
    with True that kept show ?thesis by simp
  next
    case False
    with that more show ?thesis by auto
  qed
  from one have f1: "any_modified p1 \<longleftrightarrow>
      any_modified p \<or> (\<exists>e l. at_position pos e \<and> desired_special c e = Some l \<and> ch p e l)"
    unfolding ch_def by blast
  from more have f2: "any_modified p' \<longleftrightarrow>
      any_modified p1 \<or> (\<exists>q \<in> set ps. \<exists>e l. at_position q e \<and> desired_special c e = Some l
                             \<and> ch p1 e l)"
    unfolding ch_def by blast
  have same: "ch p1 e l \<longleftrightarrow> ch p e l" if "q \<in> set ps" and "at_position q e" for q e l
    using before [OF that] by (simp add: ch_def)
  from f1 f2 same
  have "any_modified p' \<longleftrightarrow>
      any_modified p \<or> (\<exists>q \<in> set (pos # ps). \<exists>e l. at_position q e
                            \<and> desired_special c e = Some l \<and> ch p e l)"
    by (simp only: set_simps bex_simps) blast
  with special show ?case unfolding ch_def by blast
qed

lemma desired_special_visited:
  assumes "desired_special c e = Some l"
  shows "e = Show \<or> (\<exists>pos \<in> set [0..<length (plex_seasons_l c)]. at_position pos e)"
  using assms by (cases e) (auto simp: desired_special_def split: if_splits)

lemma processed_pass_exact:
  fixes st :: store and update_log :: update_log and cfg :: config and today :: py_date
    and now :: int and sh :: plex_show and prov :: provider
  defines "r \<equiv> process_show cfg today now sh prov (st, update_log)"
  defines "c tmdb_data final \<equiv> loop_locals today sh prov tmdb_data final"
  assumes processed: "outcome_of r = Processed"
      and series: "series_response prov = Some tmdb_data"
      and final: "final_season_index (map fst
                    (fetch_seasons (seasons_response prov)
                       (chunks (season_numbers (season_index sh)) 20) [])) = Inr final"
  shows "(\<forall>e l. desired_special (c tmdb_data final) e = Some l
                 \<longrightarrow> labels (store_of r e) \<inter> SPECIAL_LABELS = {l})
       \<and> (\<forall>tmdb_id. tmdb_guid sh = Some tmdb_id \<longrightarrow>
            log_of r =
              (if \<exists>e l. desired_special (c tmdb_data final) e = Some l
                        \<and> labels (st e) \<inter> SPECIAL_LABELS \<noteq> {l}
               then update_log(tmdb_id \<mapsto> now) else update_log))"
proof -
  let ?c = "loop_locals today sh prov tmdb_data final"
  from processed [unfolded r_def] obtain tmdb_id' tmdb_data' st1 final' p where
    guid: "tmdb_guid sh = Some tmdb_id'"
    and series': "series_response prov = Some tmdb_data'"
    and seasons: "season_index sh \<noteq> []"
    and status: "set_status_label cfg today tmdb_data' (lower (status tmdb_data'))
           (Season (latest_position (season_index sh)))
           (season_index sh ! latest_position (season_index sh)) st = Inr st1"
    and loop': "process_seasons (loop_locals today sh prov tmdb_data' final')
                 [0..<length (season_index sh)]
                 \<lparr>labelled = st1, latest_season_label = None, any_modified = False\<rparr> = (p, None)"
    and final': "final_season_index (map fst
                  (fetch_seasons (seasons_response prov)
                     (chunks (season_numbers (season_index sh)) 20) [])) = Inr final'"
    and store: "store_of r =
                  (case latest_season_label p of
                     Some l \<Rightarrow> fst (set_label Show l (labelled p))
                   | None \<Rightarrow> remove_all_special_labels Show (labelled p))"
    and log: "log_of r =
                (if any_modified p \<or>
                    (case latest_season_label p of
                       Some l \<Rightarrow> snd (set_label Show l (labelled p))
                     | None \<Rightarrow> False)
                 then update_log(tmdb_id' \<mapsto> now) else update_log)"
    unfolding r_def by (rule process_show_processed)
  from series series' final final' loop'
  have loop: "process_seasons ?c [0..<length (season_index sh)]
                \<lparr>labelled = st1, latest_season_label = None, any_modified = False\<rparr> = (p, None)"
    by simp
  have idx: "plex_seasons_l ?c = season_index sh"
    "latest_index_l ?c = season_index sh ! latest_position (season_index sh)"
    by (simp_all add: loop_locals_def)
  define ch where "ch s e l \<longleftrightarrow> labels (s e) \<inter> SPECIAL_LABELS \<noteq> {l}" for s :: store and e l
  have before: "labels (st1 e) \<inter> SPECIAL_LABELS = labels (st e) \<inter> SPECIAL_LABELS" for e
    using status by (rule special_set_status_label)
  have show_kept: "labelled p Show = st1 Show"
    using process_seasons_frame [OF loop, of Show] by simp
  have others: "store_of r e = labelled p e" if "e \<noteq> Show" for e
    using that
    by (cases "latest_season_label p")
       (simp_all add: store frame_set_label frame_remove_all_special_labels)
  have "\<exists>pos \<in> set [0..<length (season_index sh)]. plex_seasons_l ?c ! pos = latest_index_l ?c"
    using latest_position_less [OF seasons] by (auto simp: idx)
  with process_seasons_latest [OF loop]
  have latest: "latest_season_label p = desired_special ?c Show"
    by (auto simp: desired_special_def split: option.splits)
  have exact:
    "(\<forall>pos \<in> set [0..<length (season_index sh)]. \<forall>e l.
         at_position pos e \<and> desired_special ?c e = Some l
           \<longrightarrow> labels (labelled p e) \<inter> SPECIAL_LABELS = {l})
     \<and> (any_modified p \<longleftrightarrow>
          (\<exists>pos \<in> set [0..<length (season_index sh)]. \<exists>e l.
              at_position pos e \<and> desired_special ?c e = Some l \<and> ch st1 e l))"
    using process_seasons_exact [OF _ _ loop] unfolding ch_def by (simp add: idx)
  have show_label: "l \<in> SPECIAL_LABELS \<and> l \<noteq> []" if "desired_special ?c Show = Some l" for l
  proof -
    from that have "season_outcome ?c (latest_index_l ?c) = Some (Some l)"
      by (auto simp: desired_special_def split: option.splits)
    then show ?thesis by (rule season_outcome_special)
  qed
  have special: "labels (store_of r e) \<inter> SPECIAL_LABELS = {l}"
    if d: "desired_special ?c e = Some l" for e l
  proof (cases "e = Show")
    case True
    with d latest show_label [of l] show ?thesis
      by (simp add: store special_after_set_label)
  next
    case False
    with desired_special_visited [OF d] idx obtain pos where
      "pos \<in> set [0..<length (season_index sh)]" "at_position pos e" by auto
    with exact d have "labels (labelled p e) \<inter> SPECIAL_LABELS = {l}" by blast
    with False others show ?thesis by simp
  qed
  have same: "ch st1 e l \<longleftrightarrow> ch st e l" for e l
    by (simp add: ch_def before)
  define updated where
    "updated = (case latest_season_label p of
                  Some l \<Rightarrow> snd (set_label Show l (labelled p)) | None \<Rightarrow> False)"
  have show_flag: "updated \<longleftrightarrow> (\<exists>l. desired_special ?c Show = Some l \<and> ch st Show l)"
  proof (cases "latest_season_label p")
    case None
    with latest show ?thesis by (simp add: updated_def)
  next
    case (Some l)
    with latest show_label [of l] have "l \<in> SPECIAL_LABELS" "l \<noteq> []" by simp_all
    from set_label_flag [OF this, of Show "labelled p"] Some latest show ?thesis
      by (simp add: updated_def ch_def show_kept before)
  qed
  have seasons_flag:
    "any_modified p \<longleftrightarrow> (\<exists>e l. e \<noteq> Show \<and> desired_special ?c e = Some l \<and> ch st e l)"
    (is "_ \<longleftrightarrow> ?rhs")
  proof
    assume "any_modified p"
    with exact same obtain pos e l where "at_position pos e" "desired_special ?c e = Some l"
      "ch st e l" by blast
    moreover from this have "e \<noteq> Show" by auto
    ultimately show ?rhs by blast
  next
    assume ?rhs
    then obtain e l where e: "e \<noteq> Show" "desired_special ?c e = Some l" "ch st e l" by blast
    with desired_special_visited [OF e(2)] idx obtain pos where
      "pos \<in> set [0..<length (season_index sh)]" "at_position pos e" by auto
    with e exact same show "any_modified p" by blast
  qed
  have "any_modified p \<or> updated
          \<longleftrightarrow> (\<exists>e l. desired_special ?c e = Some l \<and> ch st e l)"
    unfolding seasons_flag show_flag by metis
  with log [folded updated_def] guid have "log_of r =
      (if \<exists>e l. desired_special ?c e = Some l \<and> ch st e l
       then update_log(tmdb_id \<mapsto> now) else update_log)" if "tmdb_guid sh = Some tmdb_id" for tmdb_id
    using that by auto
  with special show ?thesis unfolding c_def ch_def by blast
qed

text \<open>
  C6, as the code has it. A pass that does not run to its end leaves the update log as
  it was. A pass that runs to its end writes the current time stamp under the id of the
  series exactly when, for at least one entity, the special label derived for it was not
  already its only special label, that is, when a call of \<^verbatim>\<open>set_label\<close> or of
  \<^verbatim>\<open>set_episode_special_labels\<close> changed a label; the special labels of some entity have
  then changed. Otherwise it leaves the update log as it was: labels removed by
  \<^verbatim>\<open>remove_all_special_labels\<close> and status or upcoming labels do not count.
\<close>

theorem update_log_recording:
  fixes st :: store and update_log :: update_log and cfg :: config and today :: py_date
    and now :: int and sh :: plex_show and prov :: provider
  defines "r \<equiv> process_show cfg today now sh prov (st, update_log)"
  defines "changed tmdb_data final \<equiv>
             (\<exists>e l. desired_special (loop_locals today sh prov tmdb_data final) e = Some l
                    \<and> labels (st e) \<inter> SPECIAL_LABELS \<noteq> {l})"
  shows "(outcome_of r \<noteq> Processed \<longrightarrow> log_of r = update_log)
       \<and> (outcome_of r = Processed \<longrightarrow>
            (\<exists>tmdb_id tmdb_data final.
                tmdb_guid sh = Some tmdb_id \<and> series_response prov = Some tmdb_data
              \<and> final_season_index (map fst
                   (fetch_seasons (seasons_response prov)
                      (chunks (season_numbers (season_index sh)) 20) [])) = Inr final
              \<and> log_of r = (if changed tmdb_data final then update_log(tmdb_id \<mapsto> now)
                            else update_log)
              \<and> (changed tmdb_data final \<longrightarrow>
                   (\<exists>e. labels (store_of r e) \<inter> SPECIAL_LABELS
                          \<noteq> labels (st e) \<inter> SPECIAL_LABELS))))"
proof (intro conjI impI)
  assume "outcome_of r \<noteq> Processed"
  then show "log_of r = update_log" unfolding r_def by (rule log_unless_processed)
next
  assume processed: "outcome_of r = Processed"
  from processed [unfolded r_def] obtain tmdb_id tmdb_data final where
    guid: "tmdb_guid sh = Some tmdb_id" and series: "series_response prov = Some tmdb_data"
    and final: "final_season_index (map fst
                  (fetch_seasons (seasons_response prov)
                     (chunks (season_numbers (season_index sh)) 20) [])) = Inr final"
    by (rule process_show_processed)
  note exact = processed_pass_exact [OF processed [unfolded r_def] series final, folded r_def]
  from exact guid
  have log: "log_of r = (if changed tmdb_data final then update_log(tmdb_id \<mapsto> now)
                         else update_log)"
    unfolding changed_def by blast
  have "\<exists>e. labels (store_of r e) \<inter> SPECIAL_LABELS \<noteq> labels (st e) \<inter> SPECIAL_LABELS"
    if "changed tmdb_data final"
  proof -
    from that obtain e l where
      d: "desired_special (loop_locals today sh prov tmdb_data final) e = Some l"
      and ne: "labels (st e) \<inter> SPECIAL_LABELS \<noteq> {l}"
      unfolding changed_def by blast
    from exact d have "labels (store_of r e) \<inter> SPECIAL_LABELS = {l}" by blast
    with ne show ?thesis by (intro exI [of _ e]) simp
  qed
  with guid series final log
  show "\<exists>tmdb_id tmdb_data final.
          tmdb_guid sh = Some tmdb_id \<and> series_response prov = Some tmdb_data
        \<and> final_season_index (map fst
             (fetch_seasons (seasons_response prov)
                (chunks (season_numbers (season_index sh)) 20) [])) = Inr final
        \<and> log_of r = (if changed tmdb_data final then update_log(tmdb_id \<mapsto> now)
                      else update_log)
        \<and> (changed tmdb_data final \<longrightarrow>
             (\<exists>e. labels (store_of r e) \<inter> SPECIAL_LABELS
                    \<noteq> labels (st e) \<inter> SPECIAL_LABELS))"
    by blast
qed

theorem update_log_recording_witness:
  "log_of first_run = Map.empty(''1399'' \<mapsto> 1000)
   \<and> outcome_of first_run = Processed
   \<and> (\<exists>e. labels (store_of first_run e) \<inter> SPECIAL_LABELS
             \<noteq> labels (no_labels e) \<inter> SPECIAL_LABELS)
   \<and> outcome_of settled_run = Processed
   \<and> log_of settled_run = Map.empty"
proof -
  let ?prov = "ex_provider ''Returning Series'' in_3_days"
  have p: "outcome_of first_run = Processed" by code_simp
  have "log_of first_run ''1399'' = Some 1000" by code_simp
  then have written: "log_of first_run \<noteq> Map.empty" by auto
  from p update_log_recording [of source_config ex_today 1000 ex_show ?prov no_labels Map.empty]
  obtain tmdb_id tmdb_data final where
    guid: "tmdb_guid ex_show = Some tmdb_id"
    and log: "log_of first_run =
                (if \<exists>e l. desired_special (loop_locals ex_today ex_show ?prov tmdb_data final) e
                             = Some l
                          \<and> labels (no_labels e) \<inter> SPECIAL_LABELS \<noteq> {l}
                 then Map.empty(tmdb_id \<mapsto> 1000) else Map.empty)"
    and ch: "(\<exists>e l. desired_special (loop_locals ex_today ex_show ?prov tmdb_data final) e
                      = Some l
                   \<and> labels (no_labels e) \<inter> SPECIAL_LABELS \<noteq> {l})
             \<longrightarrow> (\<exists>e. labels (store_of first_run e) \<inter> SPECIAL_LABELS
                        \<noteq> labels (no_labels e) \<inter> SPECIAL_LABELS)"
    unfolding first_run_def by blast
  from guid have id: "tmdb_id = ''1399''" by (simp add: ex_show_def)
  have first: "log_of first_run = Map.empty(''1399'' \<mapsto> 1000)
               \<and> (\<exists>e. labels (store_of first_run e) \<inter> SPECIAL_LABELS
                        \<noteq> labels (no_labels e) \<inter> SPECIAL_LABELS)"
  proof (cases "\<exists>e l. desired_special (loop_locals ex_today ex_show ?prov tmdb_data final) e
                          = Some l
                       \<and> labels (no_labels e) \<inter> SPECIAL_LABELS \<noteq> {l}")
    case True
    with log ch id show ?thesis by simp
  next
    case False
    with log written show ?thesis by simp
  qed
  have q: "outcome_of settled_run = Processed" by code_simp
  have unwritten: "log_of settled_run ''1399'' = None" by code_simp
  from q update_log_recording [of source_config ex_today 2000 ex_show ?prov
         "load_objects (store_of first_run)" Map.empty]
  obtain tmdb_id' and changed :: bool where
    guid': "tmdb_guid ex_show = Some tmdb_id'"
    and log': "log_of settled_run = (if changed then Map.empty(tmdb_id' \<mapsto> 2000) else Map.empty)"
    unfolding settled_run_def by blast
  from guid' have "tmdb_id' = ''1399''" by (simp add: ex_show_def)
  with log' unwritten have "log_of settled_run = Map.empty" by (cases changed) simp_all
  with p q first show ?thesis by simp
qed

section \<open>Season finale and series finale in a pass\<close>

lemma finale_candidates:
  assumes "lower (episode_type ep) = ''finale''" and "ep_episode_number ep \<noteq> 1"
      and "final_season_index (map fst all_tmdb_data) = Inr final"
  shows "season_candidate_label index final tmdb_status ep =
           Some (if index = Some (Max (fst ` set all_tmdb_data)) \<and>
                    (tmdb_status = ''ended'' \<or> tmdb_status = ''canceled'')
                 then ''Series Finale'' else ''Season Finale'')"
    and "episode_candidate index final tmdb_status ep =
           Some (if index = Some (Max (fst ` set all_tmdb_data)) \<and>
                    (tmdb_status = ''ended'' \<or> tmdb_status = ''canceled'')
                 then ''Series Finale'' else ''Season Finale'')"
proof -
  from assms(3) have "final = Max (fst ` set all_tmdb_data)"
    by (cases all_tmdb_data)
       (auto simp: final_season_index_def fold_max_Max simp del: Max.set_eq_fold)
  with assms(1,2) show
    "season_candidate_label index final tmdb_status ep =
           Some (if index = Some (Max (fst ` set all_tmdb_data)) \<and>
                    (tmdb_status = ''ended'' \<or> tmdb_status = ''canceled'')
                 then ''Series Finale'' else ''Season Finale'')"
    "episode_candidate index final tmdb_status ep =
           Some (if index = Some (Max (fst ` set all_tmdb_data)) \<and>
                    (tmdb_status = ''ended'' \<or> tmdb_status = ''canceled'')
                 then ''Series Finale'' else ''Season Finale'')"
    by (auto simp: season_candidate_label_def episode_candidate_def Let_def)
qed

lemma aired_member:
  assumes "aired_episodes today eps = Inr xs" and "ep \<in> set eps"
      and "ep_air_date ep = IsoDate d" and "date_le d today"
  shows "ep \<in> set xs"
  using assms
  by (induction eps arbitrary: xs)
     (auto split: date_str.splits sum.splits if_splits)

lemma candidate_other:
  assumes "n \<notin> ep_episode_number ` set eps"
  shows "map_of (candidate_episodes today index final tmdb_status eps acc) n = map_of acc n"
  using assms
  by (induction eps arbitrary: acc)
     (auto simp: update_conv' split: date_str.splits option.splits)

lemma candidate_lookup:
  assumes "ep \<in> set eps" and "distinct (map ep_episode_number eps)"
      and "ep_air_date ep = IsoDate d" and "date_le d today"
      and "episode_candidate index final tmdb_status ep = Some l"
  shows "map_of (candidate_episodes today index final tmdb_status eps acc) (ep_episode_number ep)
           = Some l"
  using assms(1,2)
proof (induction eps arbitrary: acc)
  case Nil
  then show ?case by simp
next
  case (Cons e eps)
  show ?case
  proof (cases "e = ep")
    case True
    with Cons.prems have "ep_episode_number ep \<notin> ep_episode_number ` set eps" by auto
    then show ?thesis
      using True assms(3-5) by (simp add: candidate_other update_conv')
  next
    case False
    with Cons.prems have "ep \<in> set eps" "distinct (map ep_episode_number eps)" by auto
    then show ?thesis by (simp add: Cons.IH)
  qed
qed

lemma process_season_no_raise:
  assumes "process_season c pos p = Inr p'"
      and "season_data c (plex_seasons_l c ! pos) = Some eps"
  shows "\<exists>xs. aired_episodes (today_l c) eps = Inr xs"
  using assms
  by (auto simp: process_season_def Let_def split: sum.splits)

lemma process_seasons_no_raise:
  assumes "process_seasons c ps p = (p', None)" and "pos \<in> set ps"
      and "season_data c (plex_seasons_l c ! pos) = Some eps"
  shows "\<exists>xs. aired_episodes (today_l c) eps = Inr xs"
  using assms(1,2)
proof (induction ps arbitrary: p)
  case Nil
  then show ?case by simp
next
  case (Cons q ps)
  from Cons.prems(1) obtain p1 where step: "process_season c q p = Inr p1"
    and rest: "process_seasons c ps p1 = (p', None)"
    by (auto split: sum.splits)
  show ?case
  proof (cases "pos = q")
    case True
    with step assms(3) show ?thesis by (auto intro: process_season_no_raise)
  next
    case False
    with Cons.prems(2) have "pos \<in> set ps" by simp
    with rest show ?thesis by (rule Cons.IH)
  qed
qed

text \<open>
  C8. In a pass that runs to its end, take a season whose metadata was fetched. If its
  last aired episode (the one of greatest number among the aired) has the type "finale"
  and a number other than 1, the season carries after the pass exactly one special
  label: "Series Finale" when the index of the season is the greatest season number
  among the fetched seasons and the status is "ended" or "canceled", and "Season Finale"
  otherwise (so in every other season, whatever the status). The same holds for every
  aired episode of the season of type "finale" and number other than 1 that the library
  has, the episode numbers of the season being distinct.
\<close>

theorem finale_classification:
  fixes st :: store and update_log :: update_log and cfg :: config and today :: py_date
    and now :: int and sh :: plex_show and prov :: provider and tmdb_data :: tmdb_series
  defines "r \<equiv> process_show cfg today now sh prov (st, update_log)"
  defines "all_tmdb_data \<equiv>
             fetch_seasons (seasons_response prov) (chunks (season_numbers (season_index sh)) 20) []"
  defines "label index \<equiv>
             (if index = Some (Max (fst ` set all_tmdb_data)) \<and>
                 (lower (status tmdb_data) = ''ended'' \<or> lower (status tmdb_data) = ''canceled'')
              then ''Series Finale'' else ''Season Finale'')"
  assumes processed: "outcome_of r = Processed"
      and series: "series_response prov = Some tmdb_data"
      and pos: "pos < length (season_index sh)"
      and index: "season_index sh ! pos = Some n"
      and fetched: "map_of all_tmdb_data n = Some eps"
  shows "(\<forall>a as. aired_episodes today eps = Inr (a # as)
                 \<and> lower (episode_type (max_by ep_episode_number a as)) = ''finale''
                 \<and> ep_episode_number (max_by ep_episode_number a as) \<noteq> 1
            \<longrightarrow> labels (store_of r (Season pos)) \<inter> SPECIAL_LABELS = {label (Some n)})
       \<and> (\<forall>ep d. ep \<in> set eps \<and> ep_air_date ep = IsoDate d \<and> date_le d today
                 \<and> lower (episode_type ep) = ''finale'' \<and> ep_episode_number ep \<noteq> 1
                 \<and> has_episode sh pos (ep_episode_number ep)
                 \<and> distinct (map ep_episode_number eps)
            \<longrightarrow> labels (store_of r (Episode pos (ep_episode_number ep))) \<inter> SPECIAL_LABELS
                  = {label (Some n)})"
proof -
  from processed [unfolded r_def] obtain tmdb_data' st1 final p where
    series': "series_response prov = Some tmdb_data'"
    and loop': "process_seasons (loop_locals today sh prov tmdb_data' final)
                 [0..<length (season_index sh)]
                 \<lparr>labelled = st1, latest_season_label = None, any_modified = False\<rparr> = (p, None)"
    and final: "final_season_index (map fst all_tmdb_data) = Inr final"
    unfolding all_tmdb_data_def by (rule process_show_processed)
  let ?c = "loop_locals today sh prov tmdb_data final"
  from series series' loop'
  have loop: "process_seasons ?c [0..<length (season_index sh)]
                \<lparr>labelled = st1, latest_season_label = None, any_modified = False\<rparr> = (p, None)"
    by simp
  have c: "today_l ?c = today" "plex_seasons_l ?c = season_index sh"
    "has_episode_l ?c = has_episode sh" "all_tmdb_data_l ?c = all_tmdb_data"
    "final_season_index_l ?c = final" "tmdb_status_l ?c = lower (status tmdb_data)"
    by (simp_all add: loop_locals_def all_tmdb_data_def)
  have data: "season_data ?c (plex_seasons_l ?c ! pos) = Some eps"
    using index fetched by (simp add: season_data_def c)
  note exact = processed_pass_exact
                 [OF processed [unfolded r_def] series final [unfolded all_tmdb_data_def],
                  folded r_def]
  have written: "labels (store_of r e) \<inter> SPECIAL_LABELS = {l}"
    if "desired_special ?c e = Some l" for e l
  proof -
    from exact have "\<forall>e l. desired_special ?c e = Some l
                 \<longrightarrow> labels (store_of r e) \<inter> SPECIAL_LABELS = {l}" by (rule conjunct1)
    with that show ?thesis by (elim allE impE)
  qed
  have season: "labels (store_of r (Season pos)) \<inter> SPECIAL_LABELS = {label (Some n)}"
    if aired: "aired_episodes today eps = Inr (a # as)"
      and type: "lower (episode_type (max_by ep_episode_number a as)) = ''finale''"
      and number: "ep_episode_number (max_by ep_episode_number a as) \<noteq> 1" for a as
  proof -
    have "season_outcome ?c (Some n) =
            Some (season_candidate_label (Some n) final (lower (status tmdb_data))
                    (max_by ep_episode_number a as))"
      using data aired index by (simp add: season_outcome_def c)
    also have "season_candidate_label (Some n) final (lower (status tmdb_data))
                 (max_by ep_episode_number a as) = Some (label (Some n))"
      unfolding label_def using type number final by (rule finale_candidates(1))
    finally have "desired_special ?c (Season pos) = Some (label (Some n))"
      using pos index by (simp add: desired_special_def c)
    then show ?thesis by (rule written)
  qed
  have episode: "labels (store_of r (Episode pos (ep_episode_number ep))) \<inter> SPECIAL_LABELS
                   = {label (Some n)}"
    if ep: "ep \<in> set eps" and date: "ep_air_date ep = IsoDate d" and le: "date_le d today"
      and type: "lower (episode_type ep) = ''finale''" and number: "ep_episode_number ep \<noteq> 1"
      and has: "has_episode sh pos (ep_episode_number ep)"
      and dist: "distinct (map ep_episode_number eps)" for ep d
  proof -
    from pos have "pos \<in> set [0..<length (season_index sh)]" by simp
    from process_seasons_no_raise [OF loop this data]
    obtain xs where xs: "aired_episodes today eps = Inr xs" by (auto simp: c)
    from xs ep date le have "ep \<in> set xs" by (rule aired_member)
    then obtain a as where "xs = a # as" by (cases xs) auto
    with xs have aired: "aired_episodes today eps = Inr (a # as)" by simp
    have cand: "episode_candidate (Some n) final (lower (status tmdb_data)) ep
                  = Some (label (Some n))"
      unfolding label_def using type number final by (rule finale_candidates(2))
    from ep dist date le cand
    have "map_of (candidate_episodes today (Some n) final (lower (status tmdb_data)) eps [])
            (ep_episode_number ep) = Some (label (Some n))"
      by (rule candidate_lookup)
    with data aired index pos has
    have "desired_special ?c (Episode pos (ep_episode_number ep)) = Some (label (Some n))"
      by (simp add: desired_special_def c)
    then show ?thesis by (rule written)
  qed
  show ?thesis
  proof (intro conjI allI impI)
    fix a as
    assume "aired_episodes today eps = Inr (a # as)
                 \<and> lower (episode_type (max_by ep_episode_number a as)) = ''finale''
                 \<and> ep_episode_number (max_by ep_episode_number a as) \<noteq> 1"
    then show "labels (store_of r (Season pos)) \<inter> SPECIAL_LABELS = {label (Some n)}"
      using season by (elim conjE)
  next
    fix ep d
    assume "ep \<in> set eps \<and> ep_air_date ep = IsoDate d \<and> date_le d today
                 \<and> lower (episode_type ep) = ''finale'' \<and> ep_episode_number ep \<noteq> 1
                 \<and> has_episode sh pos (ep_episode_number ep)
                 \<and> distinct (map ep_episode_number eps)"
    then show "labels (store_of r (Episode pos (ep_episode_number ep))) \<inter> SPECIAL_LABELS
                  = {label (Some n)}"
      using episode by (elim conjE)
  qed
qed

theorem finale_classification_witness:
  "labels (store_of finale_run (Season 0)) \<inter> SPECIAL_LABELS = {''Series Finale''}
   \<and> labels (store_of finale_run (Episode 0 2)) \<inter> SPECIAL_LABELS = {''Series Finale''}
   \<and> labels (store_of ended_run (Season 0)) \<inter> SPECIAL_LABELS = {''Season Finale''}
   \<and> labels (store_of ended_run (Episode 0 2)) \<inter> SPECIAL_LABELS = {''Season Finale''}"
proof -
  let ?prov = "ex_provider ''Ended'' None"
  let ?data = "\<lparr>last_air_date = Some 100, status = ''Ended'', next_episode_to_air = None\<rparr>"
  have series: "series_response ?prov = Some ?data" by (simp add: ex_provider_def)
  have aired: "aired_episodes ex_today season_1 = Inr (aired_ep 1 ''standard'' # [aired_ep 2 ''finale''])"
    by code_simp
  have last: "max_by ep_episode_number (aired_ep 1 ''standard'') [aired_ep 2 ''finale'']
                = aired_ep 2 ''finale''"
    by code_simp
  have ep: "aired_ep 2 ''finale'' \<in> set season_1
            \<and> ep_air_date (aired_ep 2 ''finale'') = IsoDate \<lparr>year = 2026, month = 10, day = 2\<rparr>
            \<and> date_le \<lparr>year = 2026, month = 10, day = 2\<rparr> ex_today
            \<and> lower (episode_type (aired_ep 2 ''finale'')) = ''finale''
            \<and> ep_episode_number (aired_ep 2 ''finale'') = 2
            \<and> distinct (map ep_episode_number season_1)"
    by code_simp
  have status: "lower (status ?data) = ''ended''" by code_simp

  have p1: "outcome_of (process_show source_config ex_today 1000 one_season ?prov
                          (show_labelled {''Pilot''}, Map.empty)) = Processed"
    by code_simp
  have f1: "map_of (fetch_seasons (seasons_response ?prov)
                      (chunks (season_numbers (season_index one_season)) 20) []) 1 = Some season_1"
    by code_simp
  have m1: "Max (fst ` set (fetch_seasons (seasons_response ?prov)
                      (chunks (season_numbers (season_index one_season)) 20) [])) = 1"
    by code_simp
  have i1: "0 < length (season_index one_season)" "season_index one_season ! 0 = Some 1"
    "has_episode one_season 0 2"
    by (simp_all add: one_season_def)
  note t1 = finale_classification [OF p1 series i1(1,2) f1]
  from t1 [THEN conjunct1, rule_format, of "aired_ep 1 ''standard''" "[aired_ep 2 ''finale'']"]
    aired last ep status m1
  have a: "labels (store_of finale_run (Season 0)) \<inter> SPECIAL_LABELS = {''Series Finale''}"
    by (simp add: finale_run_def)
  from t1 [THEN conjunct2, rule_format, of "aired_ep 2 ''finale''"] ep status m1 i1(3)
  have b: "labels (store_of finale_run (Episode 0 2)) \<inter> SPECIAL_LABELS = {''Series Finale''}"
    by (simp add: finale_run_def)

  have p2: "outcome_of (process_show source_config ex_today 1000 ex_show ?prov
                          (no_labels, Map.empty)) = Processed"
    by code_simp
  have f2: "map_of (fetch_seasons (seasons_response ?prov)
                      (chunks (season_numbers (season_index ex_show)) 20) []) 1 = Some season_1"
    by code_simp
  have m2: "Max (fst ` set (fetch_seasons (seasons_response ?prov)
                      (chunks (season_numbers (season_index ex_show)) 20) [])) = 2"
    by code_simp
  have i2: "0 < length (season_index ex_show)" "season_index ex_show ! 0 = Some 1"
    "has_episode ex_show 0 2"
    by (simp_all add: ex_show_def)
  note t2 = finale_classification [OF p2 series i2(1,2) f2]
  from t2 [THEN conjunct1, rule_format, of "aired_ep 1 ''standard''" "[aired_ep 2 ''finale'']"]
    aired last ep status m2
  have c: "labels (store_of ended_run (Season 0)) \<inter> SPECIAL_LABELS = {''Season Finale''}"
    by (simp add: ended_run_def)
  from t2 [THEN conjunct2, rule_format, of "aired_ep 2 ''finale''"] ep status m2 i2(3)
  have d: "labels (store_of ended_run (Episode 0 2)) \<inter> SPECIAL_LABELS = {''Season Finale''}"
    by (simp add: ended_run_def)
  from a b c d show ?thesis by blast
qed

section \<open>The latest season and a fetch that fails\<close>

lemma max_by_greatest: "\<forall>x \<in> set (b # xs). f x \<le> f (max_by f b xs)"
proof (induction xs arbitrary: b)
  case Nil
  show ?case by simp
next
  case (Cons y ys)
  have "f b \<le> f (if f b < f y then y else b)" by simp
  also have "\<dots> \<le> f (max_by f (if f b < f y then y else b) ys)"
    using Cons [of "if f b < f y then y else b"] by simp
  finally have b: "f b \<le> f (max_by f (if f b < f y then y else b) ys)" .
  have "f y \<le> f (if f b < f y then y else b)" by simp
  also have "\<dots> \<le> f (max_by f (if f b < f y then y else b) ys)"
    using Cons [of "if f b < f y then y else b"] by simp
  finally have y: "f y \<le> f (max_by f (if f b < f y then y else b) ys)" .
  from b y Cons [of "if f b < f y then y else b"] show ?case by simp
qed

lemma latest_position_greatest:
  assumes "i < length plex_seasons"
  shows "index_or_0 (plex_seasons ! i)
           \<le> index_or_0 (plex_seasons ! latest_position plex_seasons)"
proof -
  from assms have "i \<in> set (0 # [1..<length plex_seasons])" by (cases i) auto
  with max_by_greatest [of 0 "[1..<length plex_seasons]" "\<lambda>i. index_or_0 (plex_seasons ! i)"]
  show ?thesis unfolding latest_position_def by blast
qed

text \<open>
  C9. The show is meant to take the special label of the latest season, and to lose its
  special labels when there is none, also when the metadata of that season was not
  fetched. In the first pass below the only batch of season requests fails: \<^verbatim>\<open>max\<close> over
  the empty key list raises, the pass ends in the handler of unexpected errors, and the
  show keeps "Pilot". In the second pass an earlier season was fetched and the latest was
  not: the pass runs to its end and removes "Pilot" from the show.
\<close>

theorem failed_fetch_keeps_show_label:
  "latest_season_special ex_today one_season failing_provider = None
   \<and> outcome_of failed_fetch_run = Unexpected ValueError
   \<and> labels (store_of failed_fetch_run Show) = {''Pilot'', ''Status: Ended''}
   \<and> latest_season_special ex_today unfetched_latest (ex_provider ''Ended'' None) = None
   \<and> outcome_of sibling_run = Processed
   \<and> labels (store_of sibling_run Show) = {''Status: Ended''}"
  by code_simp

end
